theory Spec2Isabelle
  imports Main "HOL-Library.Stream"
begin

section \<open>Errors\<close>

text \<open>
  The program has one way of failing on purpose, \<^verbatim>\<open>report_error_and_exit\<close>, which
  prints a message and raises \<^verbatim>\<open>SystemExit\<close>. Each call site is one constructor of
  \<open>report\<close>, carrying the values the message interpolates. Everything else that stops the
  program is a Python exception nobody catches, but for the \<^verbatim>\<open>RecursionError\<close> of the
  generator, which \<^verbatim>\<open>main\<close> turns into a report.
\<close>

datatype TokenKind =
  DEFINE | SYMBOL | LITERAL | SEMICOLON | ALTER | REGEX | OPAREN | CPAREN | STAR | PLUS | OPTION

datatype report =
    BadSymbolChar char
      \<comment> \<open>only ASCII uppercase and lowercase letters, ... got: "c"\<close>
  | UnterminatedRuleName string
      \<comment> \<open>unterminated rule name near "..."\<close>
  | BrokenRuleDefinition
      \<comment> \<open>broken rule definition\<close>
  | UnrecognizedEscape char
      \<comment> \<open>unrecognized escape sequence: \"c"\<close>
  | UnterminatedLiteral string
      \<comment> \<open>unterminated literal value near "..."\<close>
  | UnrecognizedRegexEscape
      \<comment> \<open>unrecognized escape sequence in regex\<close>
  | BrokenRegexEscape
      \<comment> \<open>broken escape sequence in regex\<close>
  | UnrecognizedSymbol char
      \<comment> \<open>unrecognized symbol: "c" (code: n)\<close>
  | MissingSymbol
      \<comment> \<open>missing symbol for definition\<close>
  | MissingSemicolon
      \<comment> \<open>missing semicolon for rule definition\<close>
  | Redefine "string option"
      \<comment> \<open>attempt to redefine existing rule "..."\<close>
  | NoStart
      \<comment> \<open>could not find an entry point; grammar must contain a <start> rule\<close>
  | EmptyVariant "string option"
      \<comment> \<open>empty alteration variant in rule <...>\<close>
  | EmptyRule "string option"
      \<comment> \<open>rule <...> is empty\<close>
  | Unsupported TokenKind
      \<comment> \<open>rules of kind ... are not supported yet\<close>
  | UndefinedRule "string option"
      \<comment> \<open>reference to an undefined rule <...>\<close>
  | MaxRecursion
      \<comment> \<open>maximum recursion depth exceeded\<close>

datatype exn =
  IndexError | UnboundLocalError | TypeError | AttributeError | ValueError | ReError
  | RecursionError

datatype error = Reported report | Uncaught exn

section \<open>Tokens\<close>

text \<open>
  The dataclass \<^verbatim>\<open>Token\<close>: a kind and a value that is a \<^verbatim>\<open>str\<close> or \<^verbatim>\<open>None\<close>. The
  field \<^verbatim>\<open>value\<close> is \<open>tvalue\<close> here.
\<close>

record token =
  kind :: TokenKind
  tvalue :: "string option"

abbreviation Token :: "TokenKind \<Rightarrow> string option \<Rightarrow> token" where
  "Token k v \<equiv> \<lparr>kind = k, tvalue = v\<rparr>"

section \<open>The tokenizer \<^verbatim>\<open>lex_bnf\<close>\<close>

text \<open>
  A \<open>char\<close> stands for one character of the Python \<^verbatim>\<open>str\<close>. The tokenizer only ever
  moves its index forward and reads \<^verbatim>\<open>bnf[idx]\<close>, so the model carries the text from
  \<^verbatim>\<open>idx\<close> on: the empty list is \<^verbatim>\<open>idx == len(bnf)\<close>.
\<close>

abbreviation dquote :: char where "dquote \<equiv> CHR 0x22"
abbreviation squote :: char where "squote \<equiv> CHR 0x27"
abbreviation backslash :: char where "backslash \<equiv> CHR 0x5C"
abbreviation newline :: char where "newline \<equiv> CHR 0x0A"
abbreviation tab :: char where "tab \<equiv> CHR 0x09"

definition ALLOWED_SYMBOL_NAME_CHARACTERS :: string where
  "ALLOWED_SYMBOL_NAME_CHARACTERS =
     ''abcdefghijklmnopqrstuvwxyzABCDEFGHIJKLMNOPQRSTUVWXYZ'' @ ''0123456789'' @ ''-_''"

definition whitespace :: string where
  "whitespace = [CHR '' '', tab, newline, CHR 0x0D, CHR 0x0B, CHR 0x0C]"

text \<open>
  The inner loop of the \<^verbatim>\<open><\<close> branch (lines 139-150): returns the symbol name and the
  text after the closing \<^verbatim>\<open>>\<close>.
\<close>

fun lex_symbol :: "string \<Rightarrow> string \<Rightarrow> error + (string \<times> string)" where
  "lex_symbol [] symbol_name = Inl (Reported (UnterminatedRuleName symbol_name))"
| "lex_symbol (c # cs) symbol_name =
     (if c = CHR ''>'' then Inr (symbol_name, cs)
      else if c \<notin> set ALLOWED_SYMBOL_NAME_CHARACTERS then Inl (Reported (BadSymbolChar c))
      else lex_symbol cs (symbol_name @ [c]))"

text \<open>
  The inner loop of the two quote branches (lines 162-184 and 189-211), which differ only
  in the quote character \<open>q\<close>. After a backslash the source reads \<^verbatim>\<open>bnf[idx]\<close> with no
  check against the length, so a backslash at the very end of the text is an
  \<^verbatim>\<open>IndexError\<close>.
\<close>

fun lex_literal :: "char \<Rightarrow> string \<Rightarrow> string \<Rightarrow> error + (string \<times> string)" where
  "lex_literal q [] val = Inl (Reported (UnterminatedLiteral val))"
| "lex_literal q (c # cs) val =
     (if c = q then Inr (val, cs)
      else if c = backslash then
        (case cs of
           [] \<Rightarrow> Inl (Uncaught IndexError)
         | e # es \<Rightarrow>
             if e = CHR ''n'' then lex_literal q es (val @ [newline])
             else if e = CHR ''t'' then lex_literal q es (val @ [tab])
             else if e = backslash then lex_literal q es (val @ [backslash])
             else Inl (Reported (UnrecognizedEscape e)))
      else lex_literal q cs (val @ [c]))"

text \<open>
  The inner loop of the \<^verbatim>\<open>/\<close> branch (lines 216-237). When the text ends before the
  closing slash, line 235 formats the message with the local variable
  \<^verbatim>\<open>symbol_name\<close>, which is only bound once a \<^verbatim>\<open><\<close> branch has run: the model
  carries it as an option.
\<close>

fun lex_regex :: "string option \<Rightarrow> string \<Rightarrow> string \<Rightarrow> error + (string \<times> string)" where
  "lex_regex symbol_name [] regex =
     (case symbol_name of
        None \<Rightarrow> Inl (Uncaught UnboundLocalError)
      | Some n \<Rightarrow> Inl (Reported (UnterminatedLiteral n)))"
| "lex_regex symbol_name (c # cs) regex =
     (if c = CHR ''/'' then Inr (regex, cs)
      else if c = squote then
        (case cs of
           [] \<Rightarrow> Inl (Reported BrokenRegexEscape)
         | e # es \<Rightarrow>
             if e = CHR ''/'' then lex_regex symbol_name es (regex @ [CHR ''/''])
             else if e = squote then lex_regex symbol_name es (regex @ [squote])
             else Inl (Reported UnrecognizedRegexEscape))
      else lex_regex symbol_name cs (regex @ [c]))"

lemma lex_symbol_shorter:
  "lex_symbol cs acc = Inr (n, rest) \<Longrightarrow> length rest < length cs"
  by (induction cs acc rule: lex_symbol.induct) (auto split: if_splits)

lemma lex_literal_shorter:
  "lex_literal q cs acc = Inr (v, rest) \<Longrightarrow> length rest < length cs"
  by (induction q cs acc rule: lex_literal.induct) (auto split: if_splits list.splits)

lemma lex_regex_shorter:
  "lex_regex sn cs acc = Inr (v, rest) \<Longrightarrow> length rest < length cs"
  by (induction sn cs acc rule: lex_regex.induct) (auto split: if_splits list.splits option.splits)

text \<open>
  The outer loop (lines 135-277), with the token list built so far and
  \<^verbatim>\<open>symbol_name\<close>. The branches are in the order of the source's \<^verbatim>\<open>elif\<close> chain.
\<close>

function lex_loop :: "string \<Rightarrow> token list \<Rightarrow> string option \<Rightarrow> error + token list" where
  "lex_loop [] tokens symbol_name = Inr tokens"
| "lex_loop (c # cs) tokens symbol_name =
     (if c = CHR ''<'' then
        (case lex_symbol cs [] of
           Inl e \<Rightarrow> Inl e
         | Inr (name, rest) \<Rightarrow> lex_loop rest (tokens @ [Token SYMBOL (Some name)]) (Some name))
      else if c = CHR '':'' then
        (if 3 \<le> length (c # cs) \<and> take 3 (c # cs) = ''::=''
         then lex_loop (drop 3 (c # cs)) (tokens @ [Token DEFINE None]) symbol_name
         else Inl (Reported BrokenRuleDefinition))
      else if c = dquote then
        (case lex_literal dquote cs [] of
           Inl e \<Rightarrow> Inl e
         | Inr (val, rest) \<Rightarrow> lex_loop rest (tokens @ [Token LITERAL (Some val)]) symbol_name)
      else if c = squote then
        (case lex_literal squote cs [] of
           Inl e \<Rightarrow> Inl e
         | Inr (val, rest) \<Rightarrow> lex_loop rest (tokens @ [Token LITERAL (Some val)]) symbol_name)
      else if c = CHR ''/'' then
        (case lex_regex symbol_name cs [] of
           Inl e \<Rightarrow> Inl e
         | Inr (regex, rest) \<Rightarrow> lex_loop rest (tokens @ [Token REGEX (Some regex)]) symbol_name)
      else if c = CHR '';'' then lex_loop cs (tokens @ [Token SEMICOLON None]) symbol_name
      else if c = CHR ''|'' then lex_loop cs (tokens @ [Token ALTER None]) symbol_name
      else if c = CHR ''('' then lex_loop cs (tokens @ [Token OPAREN None]) symbol_name
      else if c = CHR '')'' then lex_loop cs (tokens @ [Token CPAREN None]) symbol_name
      else if c = CHR ''*'' then lex_loop cs (tokens @ [Token STAR None]) symbol_name
      else if c = CHR ''+'' then lex_loop cs (tokens @ [Token PLUS None]) symbol_name
      else if c = CHR ''?'' then lex_loop cs (tokens @ [Token OPTION None]) symbol_name
      else if c = CHR ''#'' then lex_loop (dropWhile (\<lambda>x. x \<noteq> newline) cs) tokens symbol_name
      else if c \<in> set whitespace then lex_loop cs tokens symbol_name
      else Inl (Reported (UnrecognizedSymbol c)))"
  by pat_completeness auto
termination
  by (relation "measure (\<lambda>(cs, tokens, symbol_name). length cs)")
     (auto dest!: lex_symbol_shorter lex_literal_shorter lex_regex_shorter
           simp: le_imp_less_Suc length_dropWhile_le)

definition lex_bnf :: "string \<Rightarrow> error + token list" where
  "lex_bnf bnf = lex_loop bnf [] None"

section \<open>Dictionaries\<close>

text \<open>
  A Python \<^verbatim>\<open>dict\<close> keeps its keys in insertion order, and the rule builder iterates over
  one, so a dictionary is an association list with distinct keys: \<open>map_of\<close> is
  \<^verbatim>\<open>d.get(k)\<close>, \<open>dict_keys\<close> the keys in order and \<open>dict_set\<close> the assignment
  \<^verbatim>\<open>d[k] = v\<close>.
\<close>

definition dict_keys :: "('k \<times> 'v) list \<Rightarrow> 'k list" where
  "dict_keys d = map fst d"

fun dict_set :: "('k \<times> 'v) list \<Rightarrow> 'k \<Rightarrow> 'v \<Rightarrow> ('k \<times> 'v) list" where
  "dict_set [] k v = [(k, v)]"
| "dict_set ((k', v') # d) k v = (if k' = k then (k, v) # d else (k', v') # dict_set d k v)"

section \<open>The definition extractor \<^verbatim>\<open>parse_all_symbol_definitions\<close>\<close>

type_synonym DictOfSymbolDefinitions = "(string option \<times> token list) list"

text \<open>
  The loop of lines 421-436. \<open>prev\<close> is \<^verbatim>\<open>tokens[idx - 1]\<close> (\<open>None\<close> when
  \<^verbatim>\<open>idx == 0\<close>) and the list is the tokens from \<^verbatim>\<open>idx\<close> on. The inner loop of lines
  428-430 collects the tokens before the next \<^verbatim>\<open>SEMICOLON\<close> (\<open>takeWhile\<close>) and stops on
  it or at the end (\<open>dropWhile\<close>).
\<close>

lemma dropWhile_Cons_shorter: "dropWhile P ts = x # rest \<Longrightarrow> length rest < Suc (length ts)"
proof -
  assume h: "dropWhile P ts = x # rest"
  have "length (dropWhile P ts) \<le> length ts" by (rule length_dropWhile_le)
  with h show ?thesis by simp
qed

function parse_definitions_loop ::
  "token option \<Rightarrow> token list \<Rightarrow> DictOfSymbolDefinitions \<Rightarrow> error + DictOfSymbolDefinitions"
where
  "parse_definitions_loop prev [] definitions = Inr definitions"
| "parse_definitions_loop prev (t # ts) definitions =
     (if kind t = DEFINE then
        (case prev of
           None \<Rightarrow> Inl (Reported MissingSymbol)
         | Some p \<Rightarrow>
             if kind p \<noteq> SYMBOL then Inl (Reported MissingSymbol)
             else
               (case dropWhile (\<lambda>x. kind x \<noteq> SEMICOLON) ts of
                  [] \<Rightarrow> Inl (Reported MissingSemicolon)
                | semi # rest \<Rightarrow>
                    if kind semi \<noteq> SEMICOLON then Inl (Reported MissingSemicolon)
                    else if tvalue p \<in> set (dict_keys definitions)
                    then Inl (Reported (Redefine (tvalue p)))
                    else parse_definitions_loop (Some semi) rest
                           (dict_set definitions (tvalue p)
                              (takeWhile (\<lambda>x. kind x \<noteq> SEMICOLON) ts))))
      else parse_definitions_loop (Some t) ts definitions)"
  by pat_completeness auto

termination
  by (relation "measure (\<lambda>(prev, ts, definitions). length ts)")
     (auto dest!: dropWhile_Cons_shorter)

definition parse_all_symbol_definitions :: "token list \<Rightarrow> error + DictOfSymbolDefinitions" where
  "parse_all_symbol_definitions tokens = parse_definitions_loop None tokens []"

section \<open>Rules\<close>

text \<open>
  The eight rule classes. A literal's value and a reference's symbol come from
  \<^verbatim>\<open>Token.value\<close> unchecked, so they are a \<^verbatim>\<open>str\<close> or \<^verbatim>\<open>None\<close> as there. A
  \<open>RegexRule\<close> holds the source text of its compiled pattern.

  A \<open>ReferenceRule\<close> object has the mutable field \<^verbatim>\<open>__had_repr_call\<close>, and the same
  object is reached again whenever the rule it sits in is looked up again, so each one
  has an address (the \<open>nat\<close>). The flags that are set are a set of addresses, the state of
  \<open>repr\<close> below. Every \<open>ReferenceRule\<close> of one grammar holds the same dictionary object as
  its \<^verbatim>\<open>context\<close>; the model passes that dictionary to \<open>gen\<close> and \<open>repr\<close> instead of
  storing it in each node.
\<close>

datatype rule =
    LiteralRule "string option"
  | RegexRule string
  | CompoundRule "rule list"
  | AlterationRule "rule list"
  | ReferenceRule "string option" nat
  | OptionalRule rule
  | NoneOrMoreRule rule
  | OneOrMoreRule rule

type_synonym DictOfRules = "(string option \<times> rule) list"

section \<open>The rule builder \<^verbatim>\<open>parse_bnf_tokens\<close>\<close>

text \<open>Lines 482-485 and 498-501: one rule alone is the variant, several are a compound.\<close>

definition variant_of :: "rule list \<Rightarrow> rule" where
  "variant_of current_variant_rules =
     (if length current_variant_rules = 1 then current_variant_rules ! 0
      else CompoundRule current_variant_rules)"

text \<open>
  The three postfix branches call \<^verbatim>\<open>current_variant_rules.pop()\<close> and append the
  wrapped rule; \<^verbatim>\<open>pop\<close> on an empty list raises \<^verbatim>\<open>IndexError\<close>.
\<close>

definition wrap_last :: "(rule \<Rightarrow> rule) \<Rightarrow> rule list \<Rightarrow> error + rule list" where
  "wrap_last wrap current_variant_rules =
     (if current_variant_rules = [] then Inl (Uncaught IndexError)
      else Inr (butlast current_variant_rules @ [wrap (last current_variant_rules)]))"

text \<open>
  The body of the \<^verbatim>\<open>for\<close> loop (lines 448-510) for one symbol: the \<^verbatim>\<open>while\<close> loop over
  its tokens and, at the end of the list, the code after the loop. \<open>re_ok\<close> says which
  pattern texts \<^verbatim>\<open>re.compile\<close> accepts, \<open>nid\<close> is the address of the next
  \<open>ReferenceRule\<close> object. The result is the symbol's rule.
\<close>

fun parse_rule_tokens ::
  "(string \<Rightarrow> bool) \<Rightarrow> string option \<Rightarrow> token list \<Rightarrow> rule list \<Rightarrow> rule list \<Rightarrow> nat
     \<Rightarrow> error + (rule \<times> nat)"
where
  "parse_rule_tokens re_ok rule_symbol [] alteration_variants current_variant_rules nid =
     (if length current_variant_rules = 0 then Inl (Reported (EmptyVariant rule_symbol))
      else
        (let alteration_variants = alteration_variants @ [variant_of current_variant_rules]
         in if length alteration_variants = 0 then Inl (Reported (EmptyRule rule_symbol))
            else if length alteration_variants = 1 then Inr (alteration_variants ! 0, nid)
            else Inr (AlterationRule alteration_variants, nid)))"
| "parse_rule_tokens re_ok rule_symbol (t # ts) alteration_variants current_variant_rules nid =
     (if kind t = LITERAL then
        parse_rule_tokens re_ok rule_symbol ts alteration_variants
          (current_variant_rules @ [LiteralRule (tvalue t)]) nid
      else if kind t = REGEX then
        (case tvalue t of
           None \<Rightarrow> Inl (Uncaught TypeError)
         | Some pattern \<Rightarrow>
             if re_ok pattern then
               parse_rule_tokens re_ok rule_symbol ts alteration_variants
                 (current_variant_rules @ [RegexRule pattern]) nid
             else Inl (Uncaught ReError))
      else if kind t = SYMBOL then
        parse_rule_tokens re_ok rule_symbol ts alteration_variants
          (current_variant_rules @ [ReferenceRule (tvalue t) nid]) (Suc nid)
      else if kind t = OPTION then
        (case wrap_last OptionalRule current_variant_rules of
           Inl e \<Rightarrow> Inl e
         | Inr rules \<Rightarrow> parse_rule_tokens re_ok rule_symbol ts alteration_variants rules nid)
      else if kind t = STAR then
        (case wrap_last NoneOrMoreRule current_variant_rules of
           Inl e \<Rightarrow> Inl e
         | Inr rules \<Rightarrow> parse_rule_tokens re_ok rule_symbol ts alteration_variants rules nid)
      else if kind t = PLUS then
        (case wrap_last OneOrMoreRule current_variant_rules of
           Inl e \<Rightarrow> Inl e
         | Inr rules \<Rightarrow> parse_rule_tokens re_ok rule_symbol ts alteration_variants rules nid)
      else if kind t = ALTER then
        (if length current_variant_rules = 0 then Inl (Reported (EmptyVariant rule_symbol))
         else parse_rule_tokens re_ok rule_symbol ts
                (alteration_variants @ [variant_of current_variant_rules]) [] nid)
      else Inl (Reported (Unsupported (kind t))))"

text \<open>The \<^verbatim>\<open>for\<close> loop over \<^verbatim>\<open>definitions.items()\<close>, filling \<^verbatim>\<open>parsed_rules\<close>.\<close>

fun parse_rules ::
  "(string \<Rightarrow> bool) \<Rightarrow> DictOfSymbolDefinitions \<Rightarrow> DictOfRules \<Rightarrow> nat
     \<Rightarrow> error + (DictOfRules \<times> nat)"
where
  "parse_rules re_ok [] parsed_rules nid = Inr (parsed_rules, nid)"
| "parse_rules re_ok ((rule_symbol, rule_tokens) # definitions) parsed_rules nid =
     (case parse_rule_tokens re_ok rule_symbol rule_tokens [] [] nid of
        Inl e \<Rightarrow> Inl e
      | Inr (rule, nid') \<Rightarrow>
          parse_rules re_ok definitions (dict_set parsed_rules rule_symbol rule) nid')"

text \<open>
  \<^verbatim>\<open>parse_bnf_tokens\<close> returns \<^verbatim>\<open>ReferenceRule('start', parsed_rules)\<close>: the model returns
  the reference together with the dictionary it holds.
\<close>

definition parse_bnf_tokens :: "(string \<Rightarrow> bool) \<Rightarrow> token list \<Rightarrow> error + (rule \<times> DictOfRules)" where
  "parse_bnf_tokens re_ok tokens =
     (case parse_all_symbol_definitions tokens of
        Inl e \<Rightarrow> Inl e
      | Inr definitions \<Rightarrow>
          if Some ''start'' \<notin> set (dict_keys definitions) then Inl (Reported NoStart)
          else
            (case parse_rules re_ok definitions [] 0 of
               Inl e \<Rightarrow> Inl e
             | Inr (parsed_rules, nid) \<Rightarrow> Inr (ReferenceRule (Some ''start'') nid, parsed_rules)))"

definition parse_bnf :: "(string \<Rightarrow> bool) \<Rightarrow> string \<Rightarrow> error + (rule \<times> DictOfRules)" where
  "parse_bnf re_ok bnf =
     (case lex_bnf bnf of Inl e \<Rightarrow> Inl e | Inr tokens \<Rightarrow> parse_bnf_tokens re_ok tokens)"

section \<open>Randomness\<close>

text \<open>
  The module \<^verbatim>\<open>random\<close> is a stream of raw draws. Its functions are the ones of the
  standard library: \<^verbatim>\<open>choice(seq)\<close> is \<^verbatim>\<open>seq[_randbelow(len(seq))]\<close> and raises
  \<^verbatim>\<open>IndexError\<close> on an empty sequence, \<^verbatim>\<open>randint(a, b)\<close> is
  \<^verbatim>\<open>a + _randbelow(b - a + 1)\<close> and raises \<^verbatim>\<open>ValueError\<close> on an empty range.
  \<^verbatim>\<open>_randbelow(n)\<close> answers with the next raw draw modulo \<open>n\<close>, so every sequence of
  outcomes the library can produce is the image of some stream.
\<close>

type_synonym rng = "nat stream"

definition randbelow :: "nat \<Rightarrow> rng \<Rightarrow> nat \<times> rng" where
  "randbelow n g = (shd g mod n, stl g)"

definition choice :: "'a list \<Rightarrow> rng \<Rightarrow> error + ('a \<times> rng)" where
  "choice seq g =
     (if length seq = 0 then Inl (Uncaught IndexError)
      else (case randbelow (length seq) g of (i, g') \<Rightarrow> Inr (seq ! i, g')))"

definition randint :: "int \<Rightarrow> int \<Rightarrow> rng \<Rightarrow> error + (int \<times> rng)" where
  "randint a b g =
     (if b - a + 1 \<le> 0 then Inl (Uncaught ValueError)
      else (case randbelow (nat (b - a + 1)) g of (i, g') \<Rightarrow> Inr (a + int i, g')))"

definition START_LIMIT :: int where "START_LIMIT = 5"
definition PLUS_LIMIT :: int where "PLUS_LIMIT = 5"
definition REGEXP_REPEAT_LIMIT :: int where "REGEXP_REPEAT_LIMIT = 5"

section \<open>Generator expressions and \<^verbatim>\<open>join\<close>\<close>

text \<open>
  \<^verbatim>\<open>sep.join(f(x) for x in xs)\<close> first runs the generator to its end, one \<^verbatim>\<open>f(x)\<close> after
  the other on the state the one before left, and stops at the first exception:
  \<open>collect\<close>. Then it joins the values, with a \<^verbatim>\<open>TypeError\<close> when one of them is not a
  \<^verbatim>\<open>str\<close>.
\<close>

fun collect :: "('a \<Rightarrow> 's \<Rightarrow> error + ('b \<times> 's)) \<Rightarrow> 'a list \<Rightarrow> 's \<Rightarrow> error + ('b list \<times> 's)" where
  "collect f [] s = Inr ([], s)"
| "collect f (x # xs) s =
     (case f x s of
        Inl e \<Rightarrow> Inl e
      | Inr (y, s') \<Rightarrow>
          (case collect f xs s' of
             Inl e \<Rightarrow> Inl e
           | Inr (ys, s'') \<Rightarrow> Inr (y # ys, s'')))"

fun join :: "string \<Rightarrow> string list \<Rightarrow> string" where
  "join sep [] = []"
| "join sep [x] = x"
| "join sep (x # y # ys) = x @ sep @ join sep (y # ys)"

definition join_values :: "string option list \<Rightarrow> error + string" where
  "join_values vs =
     (if None \<in> set vs then Inl (Uncaught TypeError) else Inr (join [] (map the vs)))"

section \<open>The generator: the \<^verbatim>\<open>gen\<close> methods\<close>

text \<open>
  \<open>gen\<close> is the method \<^verbatim>\<open>gen\<close> of the eight classes, dispatched on the class. Its first
  argument is the call depth left: a recursive grammar makes \<^verbatim>\<open>gen\<close> call itself
  without end, and the interpreter's recursion limit stops it with \<^verbatim>\<open>RecursionError\<close>.
  The depth counts calls of \<^verbatim>\<open>gen\<close>; the interpreter counts frames, a few for each
  call.

  \<open>xeger\<close> is the regex sampler \<^verbatim>\<open>xegerm.xeger\<close> of the package \<^verbatim>\<open>rstr\<close>, with the
  pattern text and \<^verbatim>\<open>star_plus_limit\<close>. It returns a string, or raises a Python
  exception: the patched \<^verbatim>\<open>_handle_repeat\<close> calls \<^verbatim>\<open>randint(start_range, end_range)\<close>
  after capping \<^verbatim>\<open>end_range\<close>, a \<^verbatim>\<open>ValueError\<close> when the pattern asks for more
  repetitions than the cap. \<open>context\<close> is the dictionary of the references. The result is
  the returned value, a \<^verbatim>\<open>str\<close> (or \<^verbatim>\<open>None\<close>, from a literal without value), with the
  random source after the call.
\<close>

fun gen ::
  "nat \<Rightarrow> (string \<Rightarrow> int \<Rightarrow> rng \<Rightarrow> exn + (string \<times> rng)) \<Rightarrow> DictOfRules \<Rightarrow> rule \<Rightarrow> rng
     \<Rightarrow> error + (string option \<times> rng)"
where
  "gen 0 xeger context r g = Inl (Uncaught RecursionError)"
| "gen (Suc d) xeger context (LiteralRule v) g = Inr (v, g)"
| "gen (Suc d) xeger context (RegexRule pattern) g =
     (case xeger pattern REGEXP_REPEAT_LIMIT g of
        Inl x \<Rightarrow> Inl (Uncaught x)
      | Inr (s, g') \<Rightarrow> Inr (Some s, g'))"
| "gen (Suc d) xeger context (CompoundRule values) g =
     (case collect (\<lambda>r g'. gen d xeger context r g') values g of
        Inl e \<Rightarrow> Inl e
      | Inr (vs, g') \<Rightarrow>
          (case join_values vs of Inl e \<Rightarrow> Inl e | Inr s \<Rightarrow> Inr (Some s, g')))"
| "gen (Suc d) xeger context (AlterationRule values) g =
     (case choice values g of
        Inl e \<Rightarrow> Inl e
      | Inr (val, g') \<Rightarrow> gen d xeger context val g')"
| "gen (Suc d) xeger context (ReferenceRule symbol a) g =
     (case map_of context symbol of
        None \<Rightarrow> Inl (Reported (UndefinedRule symbol))
      | Some val \<Rightarrow> gen d xeger context val g)"
| "gen (Suc d) xeger context (OptionalRule val) g =
     (case choice [True, False] g of
        Inl e \<Rightarrow> Inl e
      | Inr (b, g') \<Rightarrow> if b then gen d xeger context val g' else Inr (Some [], g'))"
| "gen (Suc d) xeger context (NoneOrMoreRule val) g =
     (case randint 0 START_LIMIT g of
        Inl e \<Rightarrow> Inl e
      | Inr (ntimes, g') \<Rightarrow>
          (case collect (\<lambda>_ g''. gen d xeger context val g'') [0..<nat ntimes] g' of
             Inl e \<Rightarrow> Inl e
           | Inr (vs, g'') \<Rightarrow>
               (case join_values vs of Inl e \<Rightarrow> Inl e | Inr s \<Rightarrow> Inr (Some s, g''))))"
| "gen (Suc d) xeger context (OneOrMoreRule val) g =
     (case randint 1 PLUS_LIMIT g of
        Inl e \<Rightarrow> Inl e
      | Inr (ntimes, g') \<Rightarrow>
          (case collect (\<lambda>_ g''. gen d xeger context val g'') [0..<nat ntimes] g' of
             Inl e \<Rightarrow> Inl e
           | Inr (vs, g'') \<Rightarrow>
               (case join_values vs of Inl e \<Rightarrow> Inl e | Inr s \<Rightarrow> Inr (Some s, g''))))"

text \<open>
  Lines 572-581 of \<^verbatim>\<open>main\<close>: \<^verbatim>\<open>f.write(ast_entry_point.gen())\<close> inside a \<^verbatim>\<open>try\<close> that
  turns a \<^verbatim>\<open>RecursionError\<close> into the report "maximum recursion depth exceeded" and
  raises every other exception again. \<^verbatim>\<open>write\<close> takes a \<^verbatim>\<open>str\<close> only. \<open>limit\<close> is the
  recursion limit, in calls of \<^verbatim>\<open>gen\<close>.
\<close>

definition main_gen ::
  "nat \<Rightarrow> (string \<Rightarrow> int \<Rightarrow> rng \<Rightarrow> exn + (string \<times> rng)) \<Rightarrow> DictOfRules \<Rightarrow> rule \<Rightarrow> rng
     \<Rightarrow> error + (string \<times> rng)"
where
  "main_gen limit xeger context ast_entry_point g =
     (case gen limit xeger context ast_entry_point g of
        Inl e \<Rightarrow> if e = Uncaught RecursionError then Inl (Reported MaxRecursion) else Inl e
      | Inr (v, g') \<Rightarrow>
          (case v of None \<Rightarrow> Inl (Uncaught TypeError) | Some s \<Rightarrow> Inr (s, g')))"

section \<open>The introspector: the \<^verbatim>\<open>__repr__\<close> methods\<close>

text \<open>
  \<open>repr\<close> is \<^verbatim>\<open>__repr__\<close> of the eight classes; \<^verbatim>\<open>__str__\<close> and the f-string
  \<^verbatim>\<open>{self.value}\<close> come to the same call. The state is the set of addresses of the
  \<open>ReferenceRule\<close> objects whose flag \<^verbatim>\<open>__had_repr_call\<close> is set; nothing in the
  program ever clears a flag. The first argument is the call depth left, as for \<open>gen\<close>;
  nobody catches the \<^verbatim>\<open>RecursionError\<close> here. \<open>pattern_repr\<close> is the text Python prints
  for a compiled pattern.
\<close>

definition repr_str :: "string option \<Rightarrow> string" where
  "repr_str v = (case v of None \<Rightarrow> ''None'' | Some s \<Rightarrow> s)"

definition replace_newline :: "string \<Rightarrow> string" where
  "replace_newline s = concat (map (\<lambda>c. if c = newline then [backslash, CHR ''n''] else [c]) s)"

fun repr ::
  "nat \<Rightarrow> (string \<Rightarrow> string) \<Rightarrow> DictOfRules \<Rightarrow> rule \<Rightarrow> nat set \<Rightarrow> error + (string \<times> nat set)"
where
  "repr 0 pattern_repr context r flags = Inl (Uncaught RecursionError)"
| "repr (Suc d) pattern_repr context (LiteralRule v) flags =
     (case v of
        None \<Rightarrow> Inl (Uncaught AttributeError)
      | Some s \<Rightarrow> Inr (''LiteralRule('' @ [dquote] @ replace_newline s @ [dquote] @ '')'', flags))"
| "repr (Suc d) pattern_repr context (RegexRule pattern) flags =
     Inr (''RegexRule('' @ pattern_repr pattern @ '')'', flags)"
| "repr (Suc d) pattern_repr context (CompoundRule values) flags =
     (case collect (\<lambda>v fl. repr d pattern_repr context v fl) values flags of
        Inl e \<Rightarrow> Inl e
      | Inr (ss, flags') \<Rightarrow> Inr (''CompoundRule('' @ join '', '' ss @ '')'', flags'))"
| "repr (Suc d) pattern_repr context (AlterationRule values) flags =
     (case collect (\<lambda>v fl. repr d pattern_repr context v fl) values flags of
        Inl e \<Rightarrow> Inl e
      | Inr (ss, flags') \<Rightarrow> Inr (''AlterationRule('' @ join '', '' ss @ '')'', flags'))"
| "repr (Suc d) pattern_repr context (ReferenceRule symbol a) flags =
     (if a \<in> flags then
        Inr (''ReferenceRule(<'' @ repr_str symbol @ ''> with reference to self)'', flags)
      else
        (case map_of context symbol of
           None \<Rightarrow>
             Inr (''ReferenceRule(<'' @ repr_str symbol @ ''> with None)'', insert a flags)
         | Some val \<Rightarrow>
             (case repr d pattern_repr context val (insert a flags) of
                Inl e \<Rightarrow> Inl e
              | Inr (s, flags') \<Rightarrow>
                  Inr (''ReferenceRule(<'' @ repr_str symbol @ ''> with '' @ s @ '')'', flags'))))"
| "repr (Suc d) pattern_repr context (OptionalRule val) flags =
     (case repr d pattern_repr context val flags of
        Inl e \<Rightarrow> Inl e
      | Inr (s, flags') \<Rightarrow> Inr (''OptionalRule('' @ s @ '')'', flags'))"
| "repr (Suc d) pattern_repr context (NoneOrMoreRule val) flags =
     (case repr d pattern_repr context val flags of
        Inl e \<Rightarrow> Inl e
      | Inr (s, flags') \<Rightarrow> Inr (''NoneOrMoreRule('' @ s @ '')'', flags'))"
| "repr (Suc d) pattern_repr context (OneOrMoreRule val) flags =
     (case repr d pattern_repr context val flags of
        Inl e \<Rightarrow> Inl e
      | Inr (s, flags') \<Rightarrow> Inr (''OneOrMoreRule('' @ s @ '')'', flags'))"

section \<open>The rule bodies the builder accepts\<close>

text \<open>
  A rule body read from left to right, with \<open>nonempty\<close> telling whether the current
  sequence holds a rule: a literal, a regex that compiles or a symbol makes it non-empty,
  a postfix token and \<^verbatim>\<open>ALTER\<close> need it non-empty, \<^verbatim>\<open>ALTER\<close> empties it, any other
  kind of token is refused, and the body must end on a non-empty sequence.
\<close>

fun body_builds :: "(string \<Rightarrow> bool) \<Rightarrow> bool \<Rightarrow> token list \<Rightarrow> bool" where
  "body_builds re_ok nonempty [] = nonempty"
| "body_builds re_ok nonempty (t # ts) =
     (if kind t = LITERAL then body_builds re_ok True ts
      else if kind t = REGEX then
        (case tvalue t of
           None \<Rightarrow> False
         | Some pattern \<Rightarrow> re_ok pattern \<and> body_builds re_ok True ts)
      else if kind t = SYMBOL then body_builds re_ok True ts
      else if kind t = OPTION \<or> kind t = STAR \<or> kind t = PLUS then
        nonempty \<and> body_builds re_ok True ts
      else if kind t = ALTER then nonempty \<and> body_builds re_ok False ts
      else False)"

section \<open>Renaming references\<close>

text \<open>
  Renaming the symbols that rule bodies refer to: \<open>rename_token\<close> on the tokens of a body,
  \<open>rename_rule\<close> on the rule built from it. Renaming can turn any reference into one to
  an undefined symbol, and back.
\<close>

fun rename_rule :: "(string option \<Rightarrow> string option) \<Rightarrow> rule \<Rightarrow> rule" where
  "rename_rule f (LiteralRule v) = LiteralRule v"
| "rename_rule f (RegexRule pattern) = RegexRule pattern"
| "rename_rule f (CompoundRule rules) = CompoundRule (map (rename_rule f) rules)"
| "rename_rule f (AlterationRule rules) = AlterationRule (map (rename_rule f) rules)"
| "rename_rule f (ReferenceRule symbol a) = ReferenceRule (f symbol) a"
| "rename_rule f (OptionalRule r) = OptionalRule (rename_rule f r)"
| "rename_rule f (NoneOrMoreRule r) = NoneOrMoreRule (rename_rule f r)"
| "rename_rule f (OneOrMoreRule r) = OneOrMoreRule (rename_rule f r)"

definition rename_token :: "(string option \<Rightarrow> string option) \<Rightarrow> token \<Rightarrow> token" where
  "rename_token f t = (if kind t = SYMBOL then t\<lparr>tvalue := f (tvalue t)\<rparr> else t)"

definition rename_definitions ::
  "(string option \<Rightarrow> string option) \<Rightarrow> DictOfSymbolDefinitions \<Rightarrow> DictOfSymbolDefinitions" where
  "rename_definitions f definitions = map (\<lambda>(k, ts). (k, map (rename_token f) ts)) definitions"

definition rename_rules :: "(string option \<Rightarrow> string option) \<Rightarrow> DictOfRules \<Rightarrow> DictOfRules" where
  "rename_rules f parsed_rules = map (\<lambda>(k, r). (k, rename_rule f r)) parsed_rules"

section \<open>Repetition, as the specification words it\<close>

text \<open>
  The two repetition rules in the words of the specification: draw a count from \<open>lo\<close> to
  \<open>hi\<close> inclusive (one value for each residue of the raw draw), generate the inner rule
  that many times, each time from the random source the time before left, and concatenate
  the results in order.
\<close>

definition spec_draw_count :: "nat \<Rightarrow> nat \<Rightarrow> rng \<Rightarrow> nat" where
  "spec_draw_count lo hi g = lo + shd g mod (hi - lo + 1)"

fun spec_generate_times ::
  "nat \<Rightarrow> (rng \<Rightarrow> error + (string option \<times> rng)) \<Rightarrow> rng \<Rightarrow> error + (string \<times> rng)" where
  "spec_generate_times 0 inner g = Inr ([], g)"
| "spec_generate_times (Suc n) inner g =
     (case inner g of
        Inl e \<Rightarrow> Inl e
      | Inr (v, g') \<Rightarrow>
          (case spec_generate_times n inner g' of
             Inl e \<Rightarrow> Inl e
           | Inr (s, g'') \<Rightarrow>
               (case v of None \<Rightarrow> Inl (Uncaught TypeError) | Some x \<Rightarrow> Inr (x @ s, g''))))"

definition spec_repetition ::
  "nat \<Rightarrow> nat \<Rightarrow> (rng \<Rightarrow> error + (string option \<times> rng)) \<Rightarrow> rng \<Rightarrow> error + (string option \<times> rng)" where
  "spec_repetition lo hi inner g =
     (case spec_generate_times (spec_draw_count lo hi g) inner (stl g) of
        Inl e \<Rightarrow> Inl e
      | Inr (s, g') \<Rightarrow> Inr (Some s, g'))"

section \<open>The tokenizer on unterminated literals and regex bodies\<close>

text \<open>
  A literal body without closing quote and without backslash runs to the end of the text
  and is reported as unterminated, with the characters read; with a backslash as the last
  character the read past the end comes first.
\<close>

lemma lex_literal_unterminated:
  "q \<notin> set body \<Longrightarrow> backslash \<notin> set body
   \<Longrightarrow> lex_literal q body val = Inl (Reported (UnterminatedLiteral (val @ body)))"
  by (induction body arbitrary: val) auto

lemma lex_literal_trailing_backslash:
  "q \<notin> set body \<Longrightarrow> backslash \<notin> set body \<Longrightarrow> q \<noteq> backslash
   \<Longrightarrow> lex_literal q (body @ [backslash]) val = Inl (Uncaught IndexError)"
  by (induction body arbitrary: val) auto

text \<open>
  A regex body without closing slash and without escape runs to the end of the text; what
  happens then depends on \<^verbatim>\<open>symbol_name\<close> alone, not on the body.
\<close>

lemma lex_regex_unterminated:
  "CHR ''/'' \<notin> set body \<Longrightarrow> squote \<notin> set body
   \<Longrightarrow> lex_regex symbol_name body regex =
       (case symbol_name of
          None \<Rightarrow> Inl (Uncaught UnboundLocalError)
        | Some n \<Rightarrow> Inl (Reported (UnterminatedLiteral n)))"
  by (induction body arbitrary: regex) auto

text \<open>
  C4. A quoted literal that is opened and not closed before the end of the text should end
  in the reported error "unterminated literal value". It does when the text simply ends
  (\<open>lex_literal q [] val\<close>). When the last character of the text is a backslash, the
  source steps past it and reads \<^verbatim>\<open>bnf[idx]\<close> at \<^verbatim>\<open>idx == len(bnf)\<close>: the tokenizer
  stops with an uncaught \<^verbatim>\<open>IndexError\<close>, in whatever state the outer loop is, for both
  quote characters. The regex branch makes the check this branch lacks
  (\<^verbatim>\<open>if idx < len(bnf)\<close>, line 219).
\<close>

theorem literal_trailing_backslash_index_error:
  "lex_bnf [dquote, backslash] = Inl (Uncaught IndexError)
   \<and> lex_bnf [squote, backslash] = Inl (Uncaught IndexError)
   \<and> lex_loop (dquote # ''ab'' @ [backslash]) tokens symbol_name = Inl (Uncaught IndexError)
   \<and> lex_loop (squote # ''ab'' @ [backslash]) tokens symbol_name = Inl (Uncaught IndexError)"
  by (simp add: lex_bnf_def)

text \<open>
  C5. A regex body that is opened and not closed before the end of the text should end in
  a reported error that shows the offending fragment. Line 235 formats its message with
  \<^verbatim>\<open>symbol_name\<close> instead of \<^verbatim>\<open>regex\<close>: with no symbol lexed before, the variable is
  unbound and the tokenizer stops with an uncaught \<^verbatim>\<open>UnboundLocalError\<close>; with a
  symbol lexed before, the message shows that symbol's name and not the regex body.
\<close>

theorem regex_unterminated_unbound_symbol_name:
  "lex_bnf ''/abc'' = Inl (Uncaught UnboundLocalError)
   \<and> lex_bnf ''<a>/abc'' = Inl (Reported (UnterminatedLiteral ''a''))"
  by (simp add: lex_bnf_def ALLOWED_SYMBOL_NAME_CHARACTERS_def)

section \<open>Postfix operators on an empty sequence\<close>

text \<open>
  Whatever came before, a postfix token met with an empty current sequence ends the
  builder with the \<^verbatim>\<open>IndexError\<close> of \<^verbatim>\<open>pop\<close>.
\<close>

lemma postfix_on_empty_sequence:
  "kind t \<in> {OPTION, STAR, PLUS}
   \<Longrightarrow> parse_rule_tokens re_ok rule_symbol (t # ts) alteration_variants [] nid
       = Inl (Uncaught IndexError)"
  by (auto simp: wrap_last_def)

text \<open>
  C2. A postfix token (\<^verbatim>\<open>?\<close>, \<^verbatim>\<open>*\<close>, \<^verbatim>\<open>+\<close>) met while the current sequence is empty
  should be a reported error. The three branches call \<^verbatim>\<open>pop()\<close> on the empty list with no
  check, so the builder stops with an uncaught \<^verbatim>\<open>IndexError\<close>: at the start of a rule
  body and right after an \<^verbatim>\<open>ALTER\<close> token alike. The \<^verbatim>\<open>ALTER\<close> branch does check for
  the empty sequence and reports it.
\<close>

theorem postfix_on_empty_sequence_index_error:
  "parse_bnf re_ok ''<start> ::= ? ;'' = Inl (Uncaught IndexError)
   \<and> parse_bnf re_ok ''<start> ::= * ;'' = Inl (Uncaught IndexError)
   \<and> parse_bnf re_ok ''<start> ::= + ;'' = Inl (Uncaught IndexError)
   \<and> parse_bnf_tokens re_ok
        [Token SYMBOL (Some ''start''), Token DEFINE None, Token LITERAL (Some ''a''),
         Token ALTER None, Token OPTION None, Token SEMICOLON None]
       = Inl (Uncaught IndexError)"
  by (simp add: parse_bnf_def lex_bnf_def ALLOWED_SYMBOL_NAME_CHARACTERS_def whitespace_def
        parse_bnf_tokens_def parse_all_symbol_definitions_def dict_keys_def wrap_last_def
        variant_of_def)

section \<open>Round trip of a one-literal grammar\<close>

lemma parse_bnf_literal_x:
  "parse_bnf re_ok (''<start> ::= '' @ [dquote, CHR ''x'', dquote] @ '' ;'')
     = Inr (ReferenceRule (Some ''start'') 0, [(Some ''start'', LiteralRule (Some ''x''))])"
  by (simp add: parse_bnf_def lex_bnf_def ALLOWED_SYMBOL_NAME_CHARACTERS_def whitespace_def
        parse_bnf_tokens_def parse_all_symbol_definitions_def dict_keys_def variant_of_def)

text \<open>
  C6. Parsing the text \<^verbatim>\<open><start> ::= "x" ;\<close> gives a reference to \<open>start\<close> and a
  dictionary with the one literal rule, and generating from it returns exactly \<open>x\<close>, for
  every random source (which is left untouched), every regex sampler and every call
  depth of at least two (the reference and the literal).
\<close>

theorem parse_then_gen_literal_x:
  "\<exists>r context.
     parse_bnf re_ok (''<start> ::= '' @ [dquote, CHR ''x'', dquote] @ '' ;'') = Inr (r, context)
     \<and> (\<forall>d xeger g. gen (Suc (Suc d)) xeger context r g = Inr (Some ''x'', g))"
  unfolding parse_bnf_literal_x by simp

section \<open>The recursion limit\<close>

text \<open>
  The grammar \<^verbatim>\<open><start> ::= <start> ;\<close> makes \<^verbatim>\<open>gen\<close> call itself without end: at
  every depth it stops with \<^verbatim>\<open>RecursionError\<close>, which \<^verbatim>\<open>main\<close> reports.
\<close>

lemma gen_self_reference:
  "gen d xeger [(Some ''start'', ReferenceRule (Some ''start'') 0)]
     (ReferenceRule (Some ''start'') a) g = Inl (Uncaught RecursionError)"
  by (induction d arbitrary: a) auto

lemma main_gen_self_reference:
  "main_gen limit xeger [(Some ''start'', ReferenceRule (Some ''start'') 0)]
     (ReferenceRule (Some ''start'') 1) g = Inl (Reported MaxRecursion)"
  by (simp add: main_gen_def gen_self_reference)

section \<open>The flags of the introspector\<close>

text \<open>A dump only ever sets flags: the state it leaves contains the state it found.\<close>

lemma collect_grows:
  assumes "\<And>x s y s'. f x s = Inr (y, s') \<Longrightarrow> s \<subseteq> s'"
  shows "collect f xs s = Inr (ys, s') \<Longrightarrow> s \<subseteq> s'"
proof (induction xs arbitrary: s ys s')
  case Nil
  then show ?case by simp
next
  case (Cons x xs)
  from Cons.prems obtain y s1 ys1 where
    a: "f x s = Inr (y, s1)" and b: "collect f xs s1 = Inr (ys1, s')"
    by (auto split: sum.splits)
  from assms[OF a] Cons.IH[OF b] show ?case by blast
qed

lemma repr_flags_grow:
  "repr d pr context r flags = Inr (s, flags') \<Longrightarrow> flags \<subseteq> flags'"
proof (induction d arbitrary: r flags s flags')
  case 0
  then show ?case by simp
next
  case (Suc d)
  have step: "\<And>v fl y fl'. repr d pr context v fl = Inr (y, fl') \<Longrightarrow> fl \<subseteq> fl'"
    by (rule Suc.IH)
  show ?case
  proof (cases r)
    case (CompoundRule vals)
    with Suc.prems obtain ss where
      "collect (\<lambda>v fl. repr d pr context v fl) vals flags = Inr (ss, flags')"
      by (auto split: sum.splits)
    then show ?thesis
      using collect_grows[of "\<lambda>v fl. repr d pr context v fl"] step by blast
  next
    case (AlterationRule vals)
    with Suc.prems obtain ss where
      "collect (\<lambda>v fl. repr d pr context v fl) vals flags = Inr (ss, flags')"
      by (auto split: sum.splits)
    then show ?thesis
      using collect_grows[of "\<lambda>v fl. repr d pr context v fl"] step by blast
  next
    case (ReferenceRule symbol a)
    show ?thesis
    proof (cases "a \<in> flags")
      case True
      with Suc.prems ReferenceRule show ?thesis by simp
    next
      case False
      with Suc.prems ReferenceRule show ?thesis
        by (auto split: option.splits sum.splits dest: step)
    qed
  qed (use Suc.prems in \<open>auto split: option.splits sum.splits dest: step\<close>)
qed

lemma repr_sets_own_flag:
  assumes h: "repr d pr context (ReferenceRule symbol a) flags = Inr (s, flags')"
  shows "a \<in> flags'"
proof (cases d)
  case 0
  with h show ?thesis by simp
next
  case (Suc d')
  show ?thesis
  proof (cases "a \<in> flags")
    case True
    with h Suc show ?thesis by simp
  next
    case False
    with h Suc show ?thesis
      by (auto split: option.splits sum.splits dest: repr_flags_grow)
  qed
qed

text \<open>
  C1, as stated: two dumps of the same tree return the same string. On the tree of the
  grammar \<^verbatim>\<open><start> ::= "x" ;\<close> (see \<open>parse_bnf_literal_x\<close>) the first dump prints the
  rule and sets the flag of the root reference; the second dump, on the flags the first
  one left, prints the placeholder.
\<close>

theorem repr_twice_differs:
  "repr (Suc (Suc 0)) id [(Some ''start'', LiteralRule (Some ''x''))]
       (ReferenceRule (Some ''start'') 0) {}
     = Inr (''ReferenceRule(<start> with LiteralRule('' @ [dquote] @ ''x'' @ [dquote] @ ''))'', {0})
   \<and> repr (Suc (Suc 0)) id [(Some ''start'', LiteralRule (Some ''x''))]
       (ReferenceRule (Some ''start'') 0) {0}
     = Inr (''ReferenceRule(<start> with reference to self)'', {0})
   \<and> ''ReferenceRule(<start> with LiteralRule('' @ [dquote] @ ''x'' @ [dquote] @ ''))''
     \<noteq> ''ReferenceRule(<start> with reference to self)''"
  by (simp add: repr_str_def replace_newline_def)

text \<open>
  C1, as the code has it: the flags a dump sets stay set. When a dump of a reference node
  has returned, the state it leaves contains the state it started from and the node's own
  flag; and on that state, or any later one that contains it, a dump of that node, at any
  depth, returns the placeholder \<^verbatim>\<open>ReferenceRule(<symbol> with reference to self)\<close>
  and changes nothing.
\<close>

theorem repr_flags_persist:
  assumes "repr d pr context (ReferenceRule symbol a) flags = Inr (s, flags')"
    and "flags' \<subseteq> later"
  shows "flags \<subseteq> flags' \<and> a \<in> later
    \<and> repr (Suc d') pr context (ReferenceRule symbol a) later
       = Inr (''ReferenceRule(<'' @ repr_str symbol @ ''> with reference to self)'', later)"
  using repr_flags_grow[OF assms(1)] repr_sets_own_flag[OF assms(1)] assms(2) by auto

text \<open>
  The theorem on the tree of the self-referential grammar \<^verbatim>\<open><start> ::= "a" <start>? ;\<close>:
  the first dump unfolds the rule twice and ends in one placeholder, the second dump is
  the placeholder alone.
\<close>

theorem repr_flags_persist_witness:
  "repr (Suc (Suc (Suc (Suc (Suc (Suc (Suc 0))))))) id
       [(Some ''start'',
         CompoundRule [LiteralRule (Some ''a''), OptionalRule (ReferenceRule (Some ''start'') 0)])]
       (ReferenceRule (Some ''start'') 1) {}
     = Inr (''ReferenceRule(<start> with CompoundRule(LiteralRule('' @ [dquote] @ ''a'' @ [dquote]
              @ ''), OptionalRule(ReferenceRule(<start> with CompoundRule(LiteralRule(''
              @ [dquote] @ ''a'' @ [dquote]
              @ ''), OptionalRule(ReferenceRule(<start> with reference to self)))))))'',
            {0, 1})
   \<and> repr (Suc 0) id
       [(Some ''start'',
         CompoundRule [LiteralRule (Some ''a''), OptionalRule (ReferenceRule (Some ''start'') 0)])]
       (ReferenceRule (Some ''start'') 1) {0, 1}
     = Inr (''ReferenceRule(<start> with reference to self)'', {0, 1})"
proof -
  have first:
    "repr (Suc (Suc (Suc (Suc (Suc (Suc (Suc 0))))))) id
       [(Some ''start'',
         CompoundRule [LiteralRule (Some ''a''), OptionalRule (ReferenceRule (Some ''start'') 0)])]
       (ReferenceRule (Some ''start'') 1) {}
     = Inr (''ReferenceRule(<start> with CompoundRule(LiteralRule('' @ [dquote] @ ''a'' @ [dquote]
              @ ''), OptionalRule(ReferenceRule(<start> with CompoundRule(LiteralRule(''
              @ [dquote] @ ''a'' @ [dquote]
              @ ''), OptionalRule(ReferenceRule(<start> with reference to self)))))))'',
            {0, 1})"
    by (simp add: repr_str_def replace_newline_def insert_commute)
  from repr_flags_persist[OF first subset_refl, of 0] first show ?thesis
    by (simp add: repr_str_def)
qed

section \<open>The definition extractor\<close>

lemma dict_keys_dict_set:
  "set (dict_keys (dict_set d k v)) = insert k (set (dict_keys d))"
  by (induction d k v rule: dict_set.induct) (auto simp: dict_keys_def)

lemma dict_keys_dict_set_new:
  "k \<notin> set (dict_keys d) \<Longrightarrow> dict_keys (dict_set d k v) = dict_keys d @ [k]"
  by (induction d k v rule: dict_set.induct) (auto simp: dict_keys_def)

text \<open>
  The loop is at its top level, outside any definition, at the start of the tokens and
  after every \<^verbatim>\<open>SEMICOLON\<close>. A prefix that ends there is processed on its own: what
  follows it cannot change what the loop does inside it.
\<close>

lemma parse_definitions_loop_prefix:
  assumes "pre = [] \<or> kind (last pre) = SEMICOLON"
  shows "parse_definitions_loop prev (pre @ rest) definitions =
     (case parse_definitions_loop prev pre definitions of
        Inl e \<Rightarrow> Inl e
      | Inr definitions' \<Rightarrow>
          parse_definitions_loop (if pre = [] then prev else Some (last pre)) rest definitions')"
  using assms
proof (induction prev pre definitions rule: parse_definitions_loop.induct)
  case (1 prev definitions)
  then show ?case by simp
next
  case (2 prev t ts definitions)
  show ?case
  proof (cases "kind t = DEFINE")
    case False
    have ts: "ts = [] \<or> kind (last ts) = SEMICOLON"
      using "2.prems" by (auto split: if_splits)
    show ?thesis using False "2.IH"(2)[OF False ts] by (auto split: sum.splits)
  next
    case True
    show ?thesis
    proof (cases prev)
      case None
      with True show ?thesis by simp
    next
      case (Some p)
      show ?thesis
      proof (cases "kind p \<noteq> SYMBOL")
        case True
        with Some \<open>kind t = DEFINE\<close> show ?thesis by simp
      next
        case False
        from "2.prems" True have ne: "ts \<noteq> []" and lst: "kind (last ts) = SEMICOLON"
          by (auto split: if_splits)
        then have ex: "\<exists>x\<in>set ts. \<not> kind x \<noteq> SEMICOLON"
          using last_in_set by blast
        then have dw: "dropWhile (\<lambda>x. kind x \<noteq> SEMICOLON) (ts @ rest)
                     = dropWhile (\<lambda>x. kind x \<noteq> SEMICOLON) ts @ rest"
          and tw: "takeWhile (\<lambda>x. kind x \<noteq> SEMICOLON) (ts @ rest)
                     = takeWhile (\<lambda>x. kind x \<noteq> SEMICOLON) ts"
          by (auto simp: dropWhile_append1 takeWhile_append1)
        from ex obtain semi r1 where d: "dropWhile (\<lambda>x. kind x \<noteq> SEMICOLON) ts = semi # r1"
          by (cases "dropWhile (\<lambda>x. kind x \<noteq> SEMICOLON) ts") (auto simp: dropWhile_eq_Nil_conv)
        have ks: "kind semi = SEMICOLON"
          using hd_dropWhile[of "\<lambda>x. kind x \<noteq> SEMICOLON" ts] d by simp
        have tsplit: "ts = takeWhile (\<lambda>x. kind x \<noteq> SEMICOLON) ts @ semi # r1"
          using takeWhile_dropWhile_id[of "\<lambda>x. kind x \<noteq> SEMICOLON" ts] d by simp
        have r1: "r1 = [] \<or> kind (last r1) = SEMICOLON"
        proof (cases "r1 = []")
          case False
          then have "last ts = last r1" by (subst tsplit) simp
          with lst show ?thesis by simp
        qed simp
        have lastpre: "(if r1 = [] then Some semi else Some (last r1)) = Some (last (t # ts))"
        proof (cases "r1 = []")
          case True
          then have "last ts = semi" by (subst tsplit) simp
          with True ne show ?thesis by simp
        next
          case False
          then have "last ts = last r1" by (subst tsplit) simp
          with False ne show ?thesis by simp
        qed
        show ?thesis
        proof (cases "tvalue p \<in> set (dict_keys definitions)")
          case True
          with Some \<open>kind t = DEFINE\<close> False d dw ks show ?thesis by simp
        next
          case nk: False
          let ?D = "dict_set definitions (tvalue p) (takeWhile (\<lambda>x. kind x \<noteq> SEMICOLON) ts)"
          have ksemi: "\<not> kind semi \<noteq> SEMICOLON" using ks by simp
          have ksym: "\<not> kind p \<noteq> SYMBOL" using False by simp
          note ih = "2.IH"(1)[OF \<open>kind t = DEFINE\<close> Some ksym d ksemi nk r1]
          have lhs: "parse_definitions_loop prev ((t # ts) @ rest) definitions
                   = parse_definitions_loop (Some semi) (r1 @ rest) ?D"
            using Some \<open>kind t = DEFINE\<close> False d dw tw ks nk by simp
          have rhs: "parse_definitions_loop prev (t # ts) definitions
                   = parse_definitions_loop (Some semi) r1 ?D"
            using Some \<open>kind t = DEFINE\<close> False d ks nk by simp
          have fin: "(if t # ts = [] then prev else Some (last (t # ts)))
                   = (if r1 = [] then Some semi else Some (last r1))"
            using lastpre by simp
          show ?thesis by (simp only: lhs rhs fin ih)
        qed
      qed
    qed
  qed
qed

text \<open>At the top level a token that is not a \<^verbatim>\<open>DEFINE\<close> is stepped over.\<close>

lemma parse_definitions_loop_skip:
  assumes "\<forall>t\<in>set stray. kind t \<noteq> DEFINE" and "post = [] \<or> kind (hd post) \<noteq> DEFINE"
  shows "parse_definitions_loop prev (stray @ post) definitions
       = parse_definitions_loop prev' post definitions"
  using assms(1)
proof (induction stray arbitrary: prev)
  case Nil
  show ?case using assms(2) by (cases post) auto
next
  case (Cons s stray)
  then show ?case by simp
qed

text \<open>The loop only adds keys, and keeps them distinct.\<close>

lemma parse_definitions_loop_keys:
  "parse_definitions_loop prev ts definitions = Inr definitions'
   \<Longrightarrow> set (dict_keys definitions) \<subseteq> set (dict_keys definitions')"
proof (induction prev ts definitions rule: parse_definitions_loop.induct)
  case (1 prev definitions)
  then show ?case by simp
next
  case (2 prev t ts definitions)
  show ?case
  proof (cases "kind t = DEFINE")
    case False
    with 2 show ?thesis by simp
  next
    case True
    from "2.prems" True obtain p semi rest where
      p: "prev = Some p" and sym: "\<not> kind p \<noteq> SYMBOL"
      and d: "dropWhile (\<lambda>x. kind x \<noteq> SEMICOLON) ts = semi # rest"
      and ks: "\<not> kind semi \<noteq> SEMICOLON"
      and nk: "tvalue p \<notin> set (dict_keys definitions)"
      and run: "parse_definitions_loop (Some semi) rest
                  (dict_set definitions (tvalue p) (takeWhile (\<lambda>x. kind x \<noteq> SEMICOLON) ts))
                = Inr definitions'"
      by (auto split: option.splits if_splits list.splits)
    from "2.IH"(1)[OF True p sym d ks nk run] show ?thesis
      by (auto simp: dict_keys_dict_set)
  qed
qed

lemma parse_definitions_loop_distinct:
  "parse_definitions_loop prev ts definitions = Inr definitions'
   \<Longrightarrow> distinct (dict_keys definitions) \<Longrightarrow> distinct (dict_keys definitions')"
proof (induction prev ts definitions rule: parse_definitions_loop.induct)
  case (1 prev definitions)
  then show ?case by simp
next
  case (2 prev t ts definitions)
  show ?case
  proof (cases "kind t = DEFINE")
    case False
    with 2 show ?thesis by simp
  next
    case True
    from "2.prems" True obtain p semi rest where
      p: "prev = Some p" and sym: "\<not> kind p \<noteq> SYMBOL"
      and d: "dropWhile (\<lambda>x. kind x \<noteq> SEMICOLON) ts = semi # rest"
      and ks: "\<not> kind semi \<noteq> SEMICOLON"
      and nk: "tvalue p \<notin> set (dict_keys definitions)"
      and run: "parse_definitions_loop (Some semi) rest
                  (dict_set definitions (tvalue p) (takeWhile (\<lambda>x. kind x \<noteq> SEMICOLON) ts))
                = Inr definitions'"
      by (auto split: option.splits if_splits list.splits)
    have "distinct (dict_keys (dict_set definitions (tvalue p) (takeWhile (\<lambda>x. kind x \<noteq> SEMICOLON) ts)))"
      using nk "2.prems"(2) by (simp add: dict_keys_dict_set_new)
    from "2.IH"(1)[OF True p sym d ks nk run this] show ?thesis .
  qed
qed

text \<open>One whole definition met at the top level.\<close>

lemma parse_definition_step:
  assumes "\<forall>t\<in>set body. kind t \<noteq> SEMICOLON"
  shows "parse_definitions_loop prev
           ([Token SYMBOL a, Token DEFINE x] @ body @ [Token SEMICOLON y] @ rest) definitions
       = (if a \<in> set (dict_keys definitions) then Inl (Reported (Redefine a))
          else parse_definitions_loop (Some (Token SEMICOLON y)) rest (dict_set definitions a body))"
proof -
  have "dropWhile (\<lambda>x. kind x \<noteq> SEMICOLON) (body @ Token SEMICOLON y # rest) = Token SEMICOLON y # rest"
    using assms by (simp add: dropWhile_append2)
  moreover have "takeWhile (\<lambda>x. kind x \<noteq> SEMICOLON) (body @ Token SEMICOLON y # rest) = body"
    using assms by (simp add: takeWhile_append2)
  ultimately show ?thesis by simp
qed

text \<open>
  C10. Tokens outside any definition are skipped without a trace. Take a token list cut in
  two at the top level of the loop (\<open>pre\<close> is empty or ends with a \<^verbatim>\<open>SEMICOLON\<close>) and
  put stray tokens in between: any tokens but \<^verbatim>\<open>DEFINE\<close>, and not standing right before
  a \<^verbatim>\<open>DEFINE\<close> (a \<^verbatim>\<open>SYMBOL\<close> there would be the head of a definition). The extractor
  returns the same result with and without them: the same table, or the same error.
\<close>

theorem stray_tokens_are_skipped:
  assumes "pre = [] \<or> kind (last pre) = SEMICOLON"
    and "\<forall>t\<in>set stray. kind t \<noteq> DEFINE"
    and "post = [] \<or> kind (hd post) \<noteq> DEFINE"
  shows "parse_all_symbol_definitions (pre @ stray @ post)
       = parse_all_symbol_definitions (pre @ post)"
proof -
  have "parse_definitions_loop None (pre @ stray @ post) []
      = parse_definitions_loop None (pre @ post) []"
    unfolding parse_definitions_loop_prefix[OF assms(1), of None "stray @ post"]
      parse_definitions_loop_prefix[OF assms(1), of None post]
      parse_definitions_loop_skip[OF assms(2,3), of "if pre = [] then None else Some (last pre)" _ "if pre = [] then None else Some (last pre)"]
    by simp
  then show ?thesis by (simp add: parse_all_symbol_definitions_def)
qed

text \<open>
  Stray tokens between the definitions of \<open>a\<close> and \<open>start\<close>: a literal, a symbol and a
  modifier.
\<close>

theorem stray_tokens_are_skipped_witness:
  "parse_all_symbol_definitions
     ([Token SYMBOL (Some ''a''), Token DEFINE None, Token LITERAL (Some ''x''),
       Token SEMICOLON None]
      @ [Token LITERAL (Some ''junk''), Token SYMBOL (Some ''q''), Token STAR None]
      @ [Token SYMBOL (Some ''start''), Token DEFINE None, Token SYMBOL (Some ''a''),
         Token SEMICOLON None])
   = Inr [(Some ''a'', [Token LITERAL (Some ''x'')]),
          (Some ''start'', [Token SYMBOL (Some ''a'')])]"
proof -
  have clean:
    "parse_all_symbol_definitions
       ([Token SYMBOL (Some ''a''), Token DEFINE None, Token LITERAL (Some ''x''),
         Token SEMICOLON None]
        @ [Token SYMBOL (Some ''start''), Token DEFINE None, Token SYMBOL (Some ''a''),
           Token SEMICOLON None])
     = Inr [(Some ''a'', [Token LITERAL (Some ''x'')]),
            (Some ''start'', [Token SYMBOL (Some ''a'')])]"
    by (simp add: parse_all_symbol_definitions_def dict_keys_def)
  have same:
    "parse_all_symbol_definitions
       ([Token SYMBOL (Some ''a''), Token DEFINE None, Token LITERAL (Some ''x''),
         Token SEMICOLON None]
        @ [Token LITERAL (Some ''junk''), Token SYMBOL (Some ''q''), Token STAR None]
        @ [Token SYMBOL (Some ''start''), Token DEFINE None, Token SYMBOL (Some ''a''),
           Token SEMICOLON None])
     = parse_all_symbol_definitions
       ([Token SYMBOL (Some ''a''), Token DEFINE None, Token LITERAL (Some ''x''),
         Token SEMICOLON None]
        @ [Token SYMBOL (Some ''start''), Token DEFINE None, Token SYMBOL (Some ''a''),
           Token SEMICOLON None])"
    by (rule stray_tokens_are_skipped) simp_all
  from same clean show ?thesis by (rule trans)
qed

text \<open>
  C9. A second definition of a symbol is rejected, whatever the two bodies are. The first
  definition of \<open>a\<close> starts at the top level of the loop (\<open>pre\<close> is empty or ends with a
  \<^verbatim>\<open>SEMICOLON\<close>), and so does the second (\<open>mid\<close> likewise). The extractor always fails:
  with the redefinition error for \<open>a\<close>, unless the tokens up to the second definition
  already fail on their own, and then with their error.
\<close>

theorem redefinition_is_rejected:
  assumes top: "pre = [] \<or> kind (last pre) = SEMICOLON"
    and b1: "\<forall>t\<in>set body1. kind t \<noteq> SEMICOLON"
    and b2: "\<forall>t\<in>set body2. kind t \<noteq> SEMICOLON"
    and mid: "mid = [] \<or> kind (last mid) = SEMICOLON"
  shows "parse_all_symbol_definitions
           (pre @ [Token SYMBOL a, Token DEFINE x1] @ body1 @ [Token SEMICOLON y1] @ mid
              @ [Token SYMBOL a, Token DEFINE x2] @ body2 @ [Token SEMICOLON y2] @ post)
       = (case parse_all_symbol_definitions
                 (pre @ [Token SYMBOL a, Token DEFINE x1] @ body1 @ [Token SEMICOLON y1] @ mid) of
            Inl e \<Rightarrow> Inl e
          | Inr definitions \<Rightarrow> Inl (Reported (Redefine a)))"
proof -
  let ?D1 = "[Token SYMBOL a, Token DEFINE x1] @ body1 @ [Token SEMICOLON y1]"
  let ?D2 = "[Token SYMBOL a, Token DEFINE x2] @ body2 @ [Token SEMICOLON y2]"
  let ?P = "pre @ ?D1 @ mid"
  have Ptop: "?P = [] \<or> kind (last ?P) = SEMICOLON"
    using mid by (cases "mid = []") auto
  have split: "parse_definitions_loop None (?P @ ?D2 @ post) []
     = (case parse_definitions_loop None ?P [] of
          Inl e \<Rightarrow> Inl e
        | Inr definitions' \<Rightarrow>
            parse_definitions_loop (if ?P = [] then None else Some (last ?P)) (?D2 @ post) definitions')"
    by (rule parse_definitions_loop_prefix[OF Ptop])
  have known: "a \<in> set (dict_keys definitions')"
    if run: "parse_definitions_loop None ?P [] = Inr definitions'" for definitions'
  proof -
    have "parse_definitions_loop None (pre @ ?D1 @ mid) []
        = (case parse_definitions_loop None pre [] of
             Inl e \<Rightarrow> Inl e
           | Inr d0 \<Rightarrow> parse_definitions_loop (if pre = [] then None else Some (last pre)) (?D1 @ mid) d0)"
      by (rule parse_definitions_loop_prefix[OF top])
    with run obtain d0 where
      r0: "parse_definitions_loop (if pre = [] then None else Some (last pre)) (?D1 @ mid) d0 = Inr definitions'"
      by (auto split: sum.splits)
    have "parse_definitions_loop (if pre = [] then None else Some (last pre)) (?D1 @ mid) d0
        = (if a \<in> set (dict_keys d0) then Inl (Reported (Redefine a))
           else parse_definitions_loop (Some (Token SEMICOLON y1)) mid (dict_set d0 a body1))"
      using parse_definition_step[OF b1, of _ a x1 y1 mid d0] by simp
    with r0 have "parse_definitions_loop (Some (Token SEMICOLON y1)) mid (dict_set d0 a body1) = Inr definitions'"
      by (auto split: if_splits)
    from parse_definitions_loop_keys[OF this] show ?thesis
      by (auto simp: dict_keys_dict_set)
  qed
  have second: "parse_definitions_loop prev (?D2 @ post) definitions' = Inl (Reported (Redefine a))"
    if "a \<in> set (dict_keys definitions')" for prev definitions'
    using parse_definition_step[OF b2, of prev a x2 y2 post definitions'] that by simp
  have "parse_definitions_loop None (?P @ ?D2 @ post) []
     = (case parse_definitions_loop None ?P [] of
          Inl e \<Rightarrow> Inl e
        | Inr definitions \<Rightarrow> Inl (Reported (Redefine a)))"
    unfolding split using known second by (auto split: sum.splits)
  then show ?thesis by (simp add: parse_all_symbol_definitions_def)
qed

text \<open>Two definitions of \<open>a\<close> with the same body, and two with different bodies.\<close>

theorem redefinition_is_rejected_witness:
  "parse_all_symbol_definitions
     ([] @ [Token SYMBOL (Some ''a''), Token DEFINE None] @ [Token LITERAL (Some ''x'')]
         @ [Token SEMICOLON None] @ []
         @ [Token SYMBOL (Some ''a''), Token DEFINE None] @ [Token LITERAL (Some ''x'')]
         @ [Token SEMICOLON None] @ [])
     = Inl (Reported (Redefine (Some ''a'')))
   \<and> parse_all_symbol_definitions
     ([] @ [Token SYMBOL (Some ''a''), Token DEFINE None] @ [Token LITERAL (Some ''x'')]
         @ [Token SEMICOLON None] @ []
         @ [Token SYMBOL (Some ''a''), Token DEFINE None] @ [Token REGEX (Some ''y''), Token PLUS None]
         @ [Token SEMICOLON None] @ [])
     = Inl (Reported (Redefine (Some ''a'')))"
proof -
  have first:
    "parse_all_symbol_definitions
       ([] @ [Token SYMBOL (Some ''a''), Token DEFINE None] @ [Token LITERAL (Some ''x'')]
           @ [Token SEMICOLON None] @ [])
     = Inr [(Some ''a'', [Token LITERAL (Some ''x'')])]"
    by (simp add: parse_all_symbol_definitions_def dict_keys_def)
  have "parse_all_symbol_definitions
     ([] @ [Token SYMBOL (Some ''a''), Token DEFINE None] @ [Token LITERAL (Some ''x'')]
         @ [Token SEMICOLON None] @ []
         @ [Token SYMBOL (Some ''a''), Token DEFINE None] @ body2
         @ [Token SEMICOLON None] @ [])
     = Inl (Reported (Redefine (Some ''a'')))"
    if "\<forall>t\<in>set body2. kind t \<noteq> SEMICOLON" for body2
    by (subst redefinition_is_rejected) (use that in \<open>simp_all only: first sum.case\<close>, simp_all)
  from this[of "[Token LITERAL (Some ''x'')]"] this[of "[Token REGEX (Some ''y''), Token PLUS None]"]
  show ?thesis by simp
qed

section \<open>What the rule builder returns\<close>

lemma parse_rules_keys:
  "parse_rules re_ok definitions parsed_rules nid = Inr (parsed_rules', nid')
   \<Longrightarrow> distinct (dict_keys parsed_rules @ dict_keys definitions)
   \<Longrightarrow> dict_keys parsed_rules' = dict_keys parsed_rules @ dict_keys definitions"
proof (induction definitions arbitrary: parsed_rules nid)
  case Nil
  then show ?case by (simp add: dict_keys_def)
next
  case (Cons def definitions)
  obtain rule_symbol rule_tokens where def: "def = (rule_symbol, rule_tokens)" by (cases def)
  from Cons.prems(1) def obtain rule nid1 where
    run: "parse_rules re_ok definitions (dict_set parsed_rules rule_symbol rule) nid1
            = Inr (parsed_rules', nid')"
    by (auto split: sum.splits)
  have new: "rule_symbol \<notin> set (dict_keys parsed_rules)"
    using Cons.prems(2) def by (auto simp: dict_keys_def)
  have keys: "dict_keys (dict_set parsed_rules rule_symbol rule) = dict_keys parsed_rules @ [rule_symbol]"
    by (rule dict_keys_dict_set_new[OF new])
  have "distinct (dict_keys (dict_set parsed_rules rule_symbol rule) @ dict_keys definitions)"
    using Cons.prems(2) def keys by (auto simp: dict_keys_def)
  from Cons.IH[OF run this] keys def show ?case by (simp add: dict_keys_def)
qed

text \<open>The builder returns on exactly the bodies \<open>body_builds\<close> accepts.\<close>

lemma wrap_last_nonempty:
  "current \<noteq> [] \<Longrightarrow> \<exists>rules. wrap_last w current = Inr rules \<and> rules \<noteq> []"
  by (simp add: wrap_last_def)

lemma wrap_last_empty: "wrap_last w [] = Inl (Uncaught IndexError)"
  by (simp add: wrap_last_def)

lemma parse_rule_tokens_builds:
  "(\<exists>res. parse_rule_tokens re_ok rule_symbol ts variants current nid = Inr res)
   \<longleftrightarrow> body_builds re_ok (current \<noteq> []) ts"
proof (induction re_ok rule_symbol ts variants current nid rule: parse_rule_tokens.induct)
  case (1 re_ok rule_symbol alteration_variants current_variant_rules nid)
  show ?case by (simp add: Let_def)
next
  case (2 re_ok rule_symbol t ts alteration_variants current_variant_rules nid)
  consider "kind t = LITERAL" | "kind t = REGEX" | "kind t = SYMBOL" | "kind t = OPTION"
    | "kind t = STAR" | "kind t = PLUS" | "kind t = ALTER"
    | "kind t \<notin> {LITERAL, REGEX, SYMBOL, OPTION, STAR, PLUS, ALTER}"
    by blast
  then show ?case
  proof cases
    case 1
    with "2.IH"(1) show ?thesis by simp
  next
    case 2
    with "2.IH"(2) show ?thesis by (auto split: option.splits)
  next
    case 3
    with "2.IH"(3) show ?thesis by simp
  next
    case 4
    show ?thesis
    proof (cases "current_variant_rules = []")
      case True
      with 4 show ?thesis by (simp add: wrap_last_empty)
    next
      case False
      from wrap_last_nonempty[OF False, of OptionalRule] obtain rules where
        w: "wrap_last OptionalRule current_variant_rules = Inr rules" and ne: "rules \<noteq> []" by blast
      with 4 False "2.IH"(4)[of rules] show ?thesis by simp
    qed
  next
    case 5
    show ?thesis
    proof (cases "current_variant_rules = []")
      case True
      with 5 show ?thesis by (simp add: wrap_last_empty)
    next
      case False
      from wrap_last_nonempty[OF False, of NoneOrMoreRule] obtain rules where
        w: "wrap_last NoneOrMoreRule current_variant_rules = Inr rules" and ne: "rules \<noteq> []" by blast
      with 5 False "2.IH"(5)[of rules] show ?thesis by simp
    qed
  next
    case 6
    show ?thesis
    proof (cases "current_variant_rules = []")
      case True
      with 6 show ?thesis by (simp add: wrap_last_empty)
    next
      case False
      from wrap_last_nonempty[OF False, of OneOrMoreRule] obtain rules where
        w: "wrap_last OneOrMoreRule current_variant_rules = Inr rules" and ne: "rules \<noteq> []" by blast
      with 6 False "2.IH"(6)[of rules] show ?thesis by simp
    qed
  next
    case 7
    with "2.IH"(7) show ?thesis by auto
  next
    case 8
    then show ?thesis by auto
  qed
qed

lemma parse_rules_builds:
  "(\<exists>res. parse_rules re_ok definitions parsed_rules nid = Inr res)
   \<longleftrightarrow> (\<forall>(rule_symbol, rule_tokens)\<in>set definitions. body_builds re_ok False rule_tokens)"
proof (induction definitions arbitrary: parsed_rules nid)
  case Nil
  then show ?case by simp
next
  case (Cons def definitions)
  obtain rule_symbol rule_tokens where def: "def = (rule_symbol, rule_tokens)" by (cases def)
  show ?case
  proof (cases "parse_rule_tokens re_ok rule_symbol rule_tokens [] [] nid")
    case (Inl e)
    with parse_rule_tokens_builds[of re_ok rule_symbol rule_tokens "[]" "[]" nid]
    have "\<not> body_builds re_ok False rule_tokens" by simp
    with Inl def show ?thesis by simp
  next
    case (Inr res)
    obtain rule nid1 where res: "res = (rule, nid1)" by (cases res)
    from Inr parse_rule_tokens_builds[of re_ok rule_symbol rule_tokens "[]" "[]" nid]
    have "body_builds re_ok False rule_tokens" by simp
    with Inr res def Cons.IH[of "dict_set parsed_rules rule_symbol rule" nid1]
    show ?thesis by simp
  qed
qed

text \<open>
  C8. \<^verbatim>\<open>parse_bnf_tokens\<close> and the symbol \<open>start\<close>.
  \<^item> When the extracted definitions have no \<open>start\<close>, it fails with the report "could
    not find an entry point" and builds nothing.
  \<^item> When they have \<open>start\<close> and every rule body is one the builder accepts, it returns:
    a reference to the symbol \<open>start\<close>, together with the rule dictionary, which has one
    rule for each extracted definition, in the same order, so \<open>start\<close> is defined in it.
  \<^item> Whenever it returns, that is what it returns, and the definitions were as said.
\<close>

theorem parse_bnf_tokens_returns_start_reference:
  "(parse_all_symbol_definitions tokens = Inr definitions
      \<and> Some ''start'' \<notin> set (dict_keys definitions)
    \<longrightarrow> parse_bnf_tokens re_ok tokens = Inl (Reported NoStart))
   \<and> (parse_all_symbol_definitions tokens = Inr definitions
      \<and> Some ''start'' \<in> set (dict_keys definitions)
      \<and> (\<forall>(rule_symbol, rule_tokens)\<in>set definitions. body_builds re_ok False rule_tokens)
    \<longrightarrow> (\<exists>a parsed_rules.
          parse_bnf_tokens re_ok tokens = Inr (ReferenceRule (Some ''start'') a, parsed_rules)
          \<and> dict_keys parsed_rules = dict_keys definitions
          \<and> map_of parsed_rules (Some ''start'') \<noteq> None))
   \<and> (parse_bnf_tokens re_ok tokens = Inr (root, parsed_rules)
    \<longrightarrow> (\<exists>a. root = ReferenceRule (Some ''start'') a)
      \<and> (\<exists>definitions. parse_all_symbol_definitions tokens = Inr definitions
            \<and> dict_keys parsed_rules = dict_keys definitions
            \<and> (\<forall>(rule_symbol, rule_tokens)\<in>set definitions.
                  body_builds re_ok False rule_tokens))
      \<and> map_of parsed_rules (Some ''start'') \<noteq> None)"
proof -
  have shape: "(\<exists>a. root = ReferenceRule (Some ''start'') a)
      \<and> (\<exists>definitions. parse_all_symbol_definitions tokens = Inr definitions
            \<and> dict_keys parsed_rules = dict_keys definitions
            \<and> (\<forall>(rule_symbol, rule_tokens)\<in>set definitions.
                  body_builds re_ok False rule_tokens))
      \<and> map_of parsed_rules (Some ''start'') \<noteq> None"
    if ok: "parse_bnf_tokens re_ok tokens = Inr (root, parsed_rules)"
    for root parsed_rules
  proof -
    from ok obtain defs nid where
      defs: "parse_all_symbol_definitions tokens = Inr defs"
      and start: "Some ''start'' \<in> set (dict_keys defs)"
      and rules: "parse_rules re_ok defs [] 0 = Inr (parsed_rules, nid)"
      and root: "root = ReferenceRule (Some ''start'') nid"
      by (auto simp: parse_bnf_tokens_def split: sum.splits if_splits)
    have "distinct (dict_keys defs)"
      using parse_definitions_loop_distinct[of None tokens "[]" defs] defs
      by (simp add: parse_all_symbol_definitions_def dict_keys_def)
    then have keys: "dict_keys parsed_rules = dict_keys defs"
      using parse_rules_keys[OF rules] by (simp add: dict_keys_def)
    have builds: "\<forall>(rule_symbol, rule_tokens)\<in>set defs. body_builds re_ok False rule_tokens"
      using parse_rules_builds[of re_ok defs "[]" 0] rules by blast
    have "Some ''start'' \<in> set (dict_keys parsed_rules)"
      using start keys by simp
    then have "Some ''start'' \<in> fst ` set parsed_rules"
      by (simp add: dict_keys_def)
    then have "map_of parsed_rules (Some ''start'') \<noteq> None"
      by (simp add: map_of_eq_None_iff)
    with root defs keys builds show ?thesis by blast
  qed
  have returns: "\<exists>a parsed_rules.
          parse_bnf_tokens re_ok tokens = Inr (ReferenceRule (Some ''start'') a, parsed_rules)
          \<and> dict_keys parsed_rules = dict_keys definitions
          \<and> map_of parsed_rules (Some ''start'') \<noteq> None"
    if defs: "parse_all_symbol_definitions tokens = Inr definitions"
      and start: "Some ''start'' \<in> set (dict_keys definitions)"
      and builds: "\<forall>(rule_symbol, rule_tokens)\<in>set definitions. body_builds re_ok False rule_tokens"
  proof -
    from builds parse_rules_builds[of re_ok definitions "[]" 0] obtain parsed nid where
      rules: "parse_rules re_ok definitions [] 0 = Inr (parsed, nid)"
      by auto
    with defs start have ok: "parse_bnf_tokens re_ok tokens = Inr (ReferenceRule (Some ''start'') nid, parsed)"
      by (simp add: parse_bnf_tokens_def)
    from shape[OF ok] defs have "dict_keys parsed = dict_keys definitions"
      and "map_of parsed (Some ''start'') \<noteq> None"
      by auto
    with ok show ?thesis by blast
  qed
  have nostart: "parse_bnf_tokens re_ok tokens = Inl (Reported NoStart)"
    if "parse_all_symbol_definitions tokens = Inr definitions"
      and "Some ''start'' \<notin> set (dict_keys definitions)"
    using that by (simp add: parse_bnf_tokens_def)
  from nostart returns shape show ?thesis by blast
qed

text \<open>
  A grammar without \<open>start\<close>, and the grammar \<^verbatim>\<open><start> ::= <b>+ ; <b> ::= "x" | "y" ;\<close>
  with the reference and the dictionary it builds.
\<close>

theorem parse_bnf_tokens_returns_start_reference_witness:
  "parse_bnf_tokens (\<lambda>pattern. True)
     [Token SYMBOL (Some ''a''), Token DEFINE None, Token LITERAL (Some ''x''),
      Token SEMICOLON None]
     = Inl (Reported NoStart)
   \<and> parse_bnf_tokens (\<lambda>pattern. True)
     [Token SYMBOL (Some ''start''), Token DEFINE None, Token SYMBOL (Some ''b''),
      Token PLUS None, Token SEMICOLON None,
      Token SYMBOL (Some ''b''), Token DEFINE None, Token LITERAL (Some ''x''),
      Token ALTER None, Token LITERAL (Some ''y''), Token SEMICOLON None]
     = Inr (ReferenceRule (Some ''start'') 1,
            [(Some ''start'', OneOrMoreRule (ReferenceRule (Some ''b'') 0)),
             (Some ''b'', AlterationRule [LiteralRule (Some ''x''), LiteralRule (Some ''y'')])])
   \<and> dict_keys
        [(Some ''start'', OneOrMoreRule (ReferenceRule (Some ''b'') 0)),
         (Some ''b'', AlterationRule [LiteralRule (Some ''x''), LiteralRule (Some ''y'')])]
     = [Some ''start'', Some ''b'']"
proof -
  let ?A = "[Token SYMBOL (Some ''a''), Token DEFINE None, Token LITERAL (Some ''x''),
             Token SEMICOLON None]"
  let ?S = "[Token SYMBOL (Some ''start''), Token DEFINE None, Token SYMBOL (Some ''b''),
             Token PLUS None, Token SEMICOLON None,
             Token SYMBOL (Some ''b''), Token DEFINE None, Token LITERAL (Some ''x''),
             Token ALTER None, Token LITERAL (Some ''y''), Token SEMICOLON None]"
  let ?DS = "[(Some ''start'', [Token SYMBOL (Some ''b''), Token PLUS None]),
              (Some ''b'', [Token LITERAL (Some ''x''), Token ALTER None, Token LITERAL (Some ''y'')])]"
  have dA: "parse_all_symbol_definitions ?A = Inr [(Some ''a'', [Token LITERAL (Some ''x'')])]
         \<and> Some ''start'' \<notin> set (dict_keys [(Some ''a'', [Token LITERAL (Some ''x'')])])"
    by (simp add: parse_all_symbol_definitions_def dict_keys_def)
  have dS: "parse_all_symbol_definitions ?S = Inr ?DS
         \<and> Some ''start'' \<in> set (dict_keys ?DS)
         \<and> (\<forall>(rule_symbol, rule_tokens)\<in>set ?DS. body_builds (\<lambda>pattern. True) False rule_tokens)"
    by (simp add: parse_all_symbol_definitions_def dict_keys_def)
  have no: "parse_bnf_tokens (\<lambda>pattern. True) ?A = Inl (Reported NoStart)"
    using parse_bnf_tokens_returns_start_reference[of ?A "[(Some ''a'', [Token LITERAL (Some ''x'')])]" "\<lambda>pattern. True"] dA
    by blast
  from parse_bnf_tokens_returns_start_reference[of ?S ?DS "\<lambda>pattern. True"] dS
  obtain a parsed_rules where
    ret: "parse_bnf_tokens (\<lambda>pattern. True) ?S = Inr (ReferenceRule (Some ''start'') a, parsed_rules)"
    and keys: "dict_keys parsed_rules = dict_keys ?DS"
    by blast
  have val: "parse_bnf_tokens (\<lambda>pattern. True) ?S
     = Inr (ReferenceRule (Some ''start'') 1,
            [(Some ''start'', OneOrMoreRule (ReferenceRule (Some ''b'') 0)),
             (Some ''b'', AlterationRule [LiteralRule (Some ''x''), LiteralRule (Some ''y'')])])"
    by (simp add: parse_bnf_tokens_def parse_all_symbol_definitions_def dict_keys_def
          variant_of_def wrap_last_def)
  from ret val keys have k: "dict_keys
        [(Some ''start'', OneOrMoreRule (ReferenceRule (Some ''b'') 0)),
         (Some ''b'', AlterationRule [LiteralRule (Some ''x''), LiteralRule (Some ''y'')])]
     = [Some ''start'', Some ''b'']"
    by (simp add: dict_keys_def)
  from no val k show ?thesis by (intro conjI)
qed

section \<open>References to undefined symbols\<close>

text \<open>The builder raises no error about an undefined symbol.\<close>

lemma parse_definitions_loop_errors:
  "parse_definitions_loop prev ts definitions \<noteq> Inl (Reported (UndefinedRule s))"
proof (induction prev ts definitions rule: parse_definitions_loop.induct)
  case (1 prev definitions)
  then show ?case by simp
next
  case (2 prev t ts definitions)
  then show ?case by (auto split: option.splits list.splits)
qed

lemma wrap_last_errors: "wrap_last w rules \<noteq> Inl (Reported e)"
  by (simp add: wrap_last_def)

lemma parse_rule_tokens_errors:
  "parse_rule_tokens re_ok rule_symbol ts variants current nid \<noteq> Inl (Reported (UndefinedRule s))"
proof (induction re_ok rule_symbol ts variants current nid rule: parse_rule_tokens.induct)
  case (1 re_ok rule_symbol alteration_variants current_variant_rules nid)
  then show ?case by (simp add: Let_def)
next
  case (2 re_ok rule_symbol t ts alteration_variants current_variant_rules nid)
  then show ?case
    by (auto simp: wrap_last_def split: option.splits sum.splits if_splits)
qed

lemma parse_rules_errors:
  "parse_rules re_ok definitions parsed_rules nid \<noteq> Inl (Reported (UndefinedRule s))"
proof (induction definitions arbitrary: parsed_rules nid)
  case Nil
  then show ?case by simp
next
  case (Cons def definitions)
  obtain rule_symbol rule_tokens where "def = (rule_symbol, rule_tokens)" by (cases def)
  with Cons parse_rule_tokens_errors show ?case
    by (auto split: sum.splits)
qed

lemma parse_bnf_tokens_errors:
  "parse_bnf_tokens re_ok tokens \<noteq> Inl (Reported (UndefinedRule s))"
  using parse_definitions_loop_errors[of None tokens "[]" s] parse_rules_errors
  by (auto simp: parse_bnf_tokens_def parse_all_symbol_definitions_def split: sum.splits)

text \<open>
  The builder treats a reference by its token kind alone: on renamed bodies it does the
  same steps, and returns the renamed rules or the same error.
\<close>

lemma variant_of_rename:
  "variant_of (map (rename_rule f) rules) = rename_rule f (variant_of rules)"
  by (cases rules) (auto simp: variant_of_def)

lemma wrap_last_rename:
  assumes "\<And>r. rename_rule f (w r) = w (rename_rule f r)"
  shows "wrap_last w (map (rename_rule f) rules) = map_sum id (map (rename_rule f)) (wrap_last w rules)"
  using assms by (cases rules rule: rev_cases) (auto simp: wrap_last_def)

lemma parse_rule_tokens_rename:
  "parse_rule_tokens re_ok rule_symbol (map (rename_token f) ts)
      (map (rename_rule f) variants) (map (rename_rule f) current) nid
   = map_sum id (map_prod (rename_rule f) id)
       (parse_rule_tokens re_ok rule_symbol ts variants current nid)"
proof (induction re_ok rule_symbol ts variants current nid rule: parse_rule_tokens.induct)
  case (1 re_ok rule_symbol alteration_variants current_variant_rules nid)
  show ?case
    by (cases alteration_variants) (auto simp: Let_def variant_of_rename[symmetric])
next
  case (2 re_ok rule_symbol t ts alteration_variants current_variant_rules nid)
  consider "kind t = LITERAL" | "kind t = REGEX" | "kind t = SYMBOL" | "kind t = OPTION"
    | "kind t = STAR" | "kind t = PLUS" | "kind t = ALTER"
    | "kind t \<notin> {LITERAL, REGEX, SYMBOL, OPTION, STAR, PLUS, ALTER}"
    by blast
  then show ?case
  proof cases
    case 1
    with "2.IH"(1) show ?thesis by (simp add: rename_token_def)
  next
    case 2
    with "2.IH"(2) show ?thesis by (auto simp: rename_token_def split: option.splits)
  next
    case 3
    with "2.IH"(3) show ?thesis by (simp add: rename_token_def)
  next
    case 4
    with "2.IH"(4) show ?thesis
      by (cases "wrap_last OptionalRule current_variant_rules")
         (auto simp: rename_token_def wrap_last_rename)
  next
    case 5
    with "2.IH"(5) show ?thesis
      by (cases "wrap_last NoneOrMoreRule current_variant_rules")
         (auto simp: rename_token_def wrap_last_rename)
  next
    case 6
    with "2.IH"(6) show ?thesis
      by (cases "wrap_last OneOrMoreRule current_variant_rules")
         (auto simp: rename_token_def wrap_last_rename)
  next
    case 7
    with "2.IH"(7) show ?thesis
      by (auto simp: rename_token_def variant_of_rename[symmetric])
  next
    case 8
    then show ?thesis by (auto simp: rename_token_def)
  qed
qed

lemma dict_set_rename:
  "dict_set (rename_rules f d) k (rename_rule f r) = rename_rules f (dict_set d k r)"
  by (induction d k r rule: dict_set.induct) (auto simp: rename_rules_def)

lemma parse_rules_rename:
  "parse_rules re_ok (rename_definitions f definitions) (rename_rules f parsed_rules) nid
   = map_sum id (map_prod (rename_rules f) id) (parse_rules re_ok definitions parsed_rules nid)"
proof (induction definitions arbitrary: parsed_rules nid)
  case Nil
  then show ?case by (simp add: rename_definitions_def)
next
  case (Cons def definitions)
  obtain rule_symbol rule_tokens where def: "def = (rule_symbol, rule_tokens)" by (cases def)
  have body: "parse_rule_tokens re_ok rule_symbol (map (rename_token f) rule_tokens) [] [] nid
        = map_sum id (map_prod (rename_rule f) id)
            (parse_rule_tokens re_ok rule_symbol rule_tokens [] [] nid)"
    using parse_rule_tokens_rename[of re_ok rule_symbol f rule_tokens "[]" "[]" nid] by simp
  show ?case
  proof (cases "parse_rule_tokens re_ok rule_symbol rule_tokens [] [] nid")
    case (Inl e)
    with def body show ?thesis by (simp add: rename_definitions_def)
  next
    case (Inr res)
    obtain rule nid1 where res: "res = (rule, nid1)" by (cases res)
    have "parse_rules re_ok (rename_definitions f definitions)
            (rename_rules f (dict_set parsed_rules rule_symbol rule)) nid1
        = map_sum id (map_prod (rename_rules f) id)
            (parse_rules re_ok definitions (dict_set parsed_rules rule_symbol rule) nid1)"
      by (rule Cons.IH)
    with def body Inr res show ?thesis
      by (simp add: rename_definitions_def dict_set_rename id_def)
  qed
qed

text \<open>The generator reports an undefined symbol only after a failed look-up.\<close>

lemma collect_error:
  "collect f xs g = Inl e \<Longrightarrow> \<exists>x\<in>set xs. \<exists>g'. f x g' = Inl e"
proof (induction xs arbitrary: g)
  case Nil
  then show ?case by simp
next
  case (Cons x xs)
  then show ?case by (fastforce split: sum.splits prod.splits)
qed

lemma join_values_errors: "join_values vs \<noteq> Inl (Reported e)"
  by (simp add: join_values_def)

lemma choice_errors: "choice xs g \<noteq> Inl (Reported e)"
  by (simp add: choice_def split: prod.splits)

lemma randint_errors: "randint a b g \<noteq> Inl (Reported e)"
  by (simp add: randint_def split: prod.splits)

lemma gen_undefined_only_if:
  "gen d xeger context r g = Inl (Reported (UndefinedRule s)) \<Longrightarrow> map_of context s = None"
proof (induction d arbitrary: r g)
  case 0
  then show ?case by simp
next
  case (Suc d)
  note ih = Suc.IH
  show ?case
  proof (cases r)
    case (LiteralRule v)
    with Suc.prems show ?thesis by simp
  next
    case (RegexRule p)
    with Suc.prems show ?thesis by (simp split: sum.splits prod.splits)
  next
    case (CompoundRule vals)
    with Suc.prems have "collect (\<lambda>r g'. gen d xeger context r g') vals g = Inl (Reported (UndefinedRule s))"
      using join_values_errors by (auto split: sum.splits)
    from collect_error[OF this] ih show ?thesis by blast
  next
    case (AlterationRule vals)
    with Suc.prems show ?thesis using choice_errors ih by (auto split: sum.splits)
  next
    case (ReferenceRule symbol a)
    with Suc.prems show ?thesis using ih by (auto split: option.splits)
  next
    case (OptionalRule val)
    with Suc.prems show ?thesis using choice_errors ih by (auto split: sum.splits if_splits)
  next
    case (NoneOrMoreRule val)
    with Suc.prems obtain n g' where "collect (\<lambda>_ g''. gen d xeger context val g'') [0..<n] g' = Inl (Reported (UndefinedRule s))"
      using join_values_errors randint_errors by (auto split: sum.splits)
    from collect_error[OF this] ih show ?thesis by blast
  next
    case (OneOrMoreRule val)
    with Suc.prems obtain n g' where "collect (\<lambda>_ g''. gen d xeger context val g'') [0..<n] g' = Inl (Reported (UndefinedRule s))"
      using join_values_errors randint_errors by (auto split: sum.splits)
    from collect_error[OF this] ih show ?thesis by blast
  qed
qed

text \<open>
  C3. A reference to an undefined symbol is no error when the rule tree is built, and is
  one when generation looks the symbol up.
  \<^item> \<^verbatim>\<open>parse_bnf_tokens\<close> never fails with the report "reference to an undefined rule".
  \<^item> Building the rules of a definition table has the same outcome whatever symbols the
    bodies refer to: after any renaming of the references it returns the renamed rules,
    or fails with the same error.
  \<^item> \<^verbatim>\<open>gen\<close> on a reference whose symbol is not in the dictionary fails with that report.
  \<^item> Whenever \<^verbatim>\<open>gen\<close> fails with that report for a symbol, the symbol is not in the
    dictionary.
\<close>

theorem undefined_symbol_fails_at_generation:
  "parse_bnf_tokens re_ok tokens \<noteq> Inl (Reported (UndefinedRule s))
   \<and> parse_rules re_ok (rename_definitions f definitions) [] 0
       = map_sum id (map_prod (rename_rules f) id) (parse_rules re_ok definitions [] 0)
   \<and> (map_of context s = None
        \<longrightarrow> gen (Suc d) xeger context (ReferenceRule s a) g = Inl (Reported (UndefinedRule s)))
   \<and> (gen d xeger context r g = Inl (Reported (UndefinedRule s)) \<longrightarrow> map_of context s = None)"
  using parse_bnf_tokens_errors[of re_ok tokens s]
    parse_rules_rename[of re_ok f definitions "[]" 0]
    gen_undefined_only_if[of d xeger "context" r g s]
  by (simp add: rename_rules_def)

text \<open>
  The grammar \<^verbatim>\<open><start> ::= "a" | <b> ;\<close>, where \<open>b\<close> is undefined: it builds, generation
  returns \<open>a\<close> when the draw picks the first variant, and fails on the look-up of \<open>b\<close>
  when it picks the second.
\<close>

theorem undefined_symbol_fails_at_generation_witness:
  "parse_bnf_tokens (\<lambda>pattern. True)
      [Token SYMBOL (Some ''start''), Token DEFINE None, Token LITERAL (Some ''a''),
       Token ALTER None, Token SYMBOL (Some ''b''), Token SEMICOLON None]
     = Inr (ReferenceRule (Some ''start'') 1,
            [(Some ''start'', AlterationRule [LiteralRule (Some ''a''), ReferenceRule (Some ''b'') 0])])
   \<and> map_of [(Some ''start'', AlterationRule [LiteralRule (Some ''a''), ReferenceRule (Some ''b'') 0])]
        (Some ''b'') = None
   \<and> gen (Suc (Suc (Suc 0))) (\<lambda>pattern limit g. Inr ([], g))
        [(Some ''start'', AlterationRule [LiteralRule (Some ''a''), ReferenceRule (Some ''b'') 0])]
        (ReferenceRule (Some ''start'') 1) (sconst 0)
     = Inr (Some ''a'', sconst 0)
   \<and> gen (Suc (Suc (Suc 0))) (\<lambda>pattern limit g. Inr ([], g))
        [(Some ''start'', AlterationRule [LiteralRule (Some ''a''), ReferenceRule (Some ''b'') 0])]
        (ReferenceRule (Some ''start'') 1) (sconst 1)
     = Inl (Reported (UndefinedRule (Some ''b'')))"
proof -
  let ?table = "[(Some ''start'', AlterationRule [LiteralRule (Some ''a''), ReferenceRule (Some ''b'') 0])]"
  have undefined: "map_of ?table (Some ''b'') = None" by simp
  have lookup: "gen (Suc 0) (\<lambda>pattern limit g. Inr ([], g)) ?table (ReferenceRule (Some ''b'') 0) (sconst 1)
      = Inl (Reported (UndefinedRule (Some ''b'')))"
    using undefined_symbol_fails_at_generation
            [of _ _ "Some ''b''" _ _ ?table 0 "\<lambda>pattern limit g. Inr ([], g)" 0 "sconst 1"] undefined
    by blast
  have reach: "gen (Suc (Suc (Suc 0))) (\<lambda>pattern limit g. Inr ([], g)) ?table
                 (ReferenceRule (Some ''start'') 1) (sconst 1)
             = gen (Suc 0) (\<lambda>pattern limit g. Inr ([], g)) ?table (ReferenceRule (Some ''b'') 0) (sconst 1)"
    by (simp add: choice_def randbelow_def)
  have other: "gen (Suc (Suc (Suc 0))) (\<lambda>pattern limit g. Inr ([], g)) ?table
                 (ReferenceRule (Some ''start'') 1) (sconst 0)
             = Inr (Some ''a'', sconst 0)"
    by (simp add: choice_def randbelow_def)
  have build: "parse_bnf_tokens (\<lambda>pattern. True)
      [Token SYMBOL (Some ''start''), Token DEFINE None, Token LITERAL (Some ''a''),
       Token ALTER None, Token SYMBOL (Some ''b''), Token SEMICOLON None]
     = Inr (ReferenceRule (Some ''start'') 1, ?table)"
    by (simp add: parse_bnf_tokens_def parse_all_symbol_definitions_def dict_keys_def variant_of_def)
  from build undefined other reach lookup show ?thesis by simp
qed

section \<open>Repetition counts\<close>

lemma join_empty_sep: "join [] xs = concat xs"
  by (induction "[] :: string" xs rule: join.induct) auto

lemma join_values_Cons:
  "join_values (v # vs) =
     (case join_values vs of
        Inl e \<Rightarrow> Inl (Uncaught TypeError)
      | Inr s \<Rightarrow> (case v of None \<Rightarrow> Inl (Uncaught TypeError) | Some x \<Rightarrow> Inr (x @ s)))"
  by (cases v) (auto simp: join_values_def join_empty_sep)

lemma join_values_error: "join_values vs = Inl e \<Longrightarrow> e = Uncaught TypeError"
  by (auto simp: join_values_def split: if_splits)

lemma collect_then_join:
  "(case collect (\<lambda>_ g'. inner g') xs g of
      Inl e \<Rightarrow> Inl e
    | Inr (vs, g') \<Rightarrow> (case join_values vs of Inl e \<Rightarrow> Inl e | Inr s \<Rightarrow> Inr (s, g')))
   = spec_generate_times (length xs) inner g"
proof (induction xs arbitrary: g)
  case Nil
  then show ?case by (simp add: join_values_def)
next
  case (Cons x xs)
  show ?case
  proof (cases "inner g")
    case (Inl e)
    then show ?thesis by simp
  next
    case (Inr res)
    obtain v g1 where res: "res = (v, g1)" by (cases res)
    note ih = Cons.IH[of g1, symmetric]
    show ?thesis
    proof (cases "collect (\<lambda>_ g'. inner g') xs g1")
      case (Inl e)
      with Inr res ih show ?thesis by simp
    next
      case r2: (Inr res2)
      obtain vs g2 where res2: "res2 = (vs, g2)" by (cases res2)
      show ?thesis
        using Inr res r2 res2 ih
        by (cases "join_values vs"; cases v) (auto simp: join_values_Cons dest: join_values_error)
    qed
  qed
qed

lemma repeat_spec:
  "(case collect (\<lambda>_ g''. inner g'') [0..<n] g of
      Inl e \<Rightarrow> Inl e
    | Inr (vs, g'') \<Rightarrow>
        (case join_values vs of Inl e \<Rightarrow> Inl e | Inr s \<Rightarrow> Inr (Some s, g'')))
   = (case spec_generate_times n inner g of
        Inl e \<Rightarrow> Inl e
      | Inr (s, g') \<Rightarrow> Inr (Some s, g'))"
proof -
  have "spec_generate_times n inner g
      = (case collect (\<lambda>_ g'. inner g') [0..<n] g of
           Inl e \<Rightarrow> Inl e
         | Inr (vs, g') \<Rightarrow> (case join_values vs of Inl e \<Rightarrow> Inl e | Inr s \<Rightarrow> Inr (s, g')))"
    using collect_then_join[of inner "[0..<n]" g] by simp
  then show ?thesis by (simp split: sum.splits prod.splits)
qed

lemma gen_NoneOrMore_spec:
  "gen (Suc d) xeger context (NoneOrMoreRule val) g
     = spec_repetition 0 5 (gen d xeger context val) g"
proof -
  have r: "randint 0 START_LIMIT g = Inr (int (shd g mod 6), stl g)"
    by (simp add: randint_def START_LIMIT_def randbelow_def)
  have c: "spec_draw_count 0 5 g = shd g mod 6"
    by (simp add: spec_draw_count_def)
  show ?thesis
    unfolding spec_repetition_def c
    by (simp add: r repeat_spec[of "gen d xeger context val"])
qed

lemma gen_OneOrMore_spec:
  "gen (Suc d) xeger context (OneOrMoreRule val) g
     = spec_repetition 1 5 (gen d xeger context val) g"
proof -
  have r: "randint 1 PLUS_LIMIT g = Inr (int (Suc (shd g mod 5)), stl g)"
    by (simp add: randint_def PLUS_LIMIT_def randbelow_def)
  have c: "spec_draw_count 1 5 g = Suc (shd g mod 5)"
    by (simp add: spec_draw_count_def)
  have n: "nat (1 + int (shd g mod 5)) = Suc (shd g mod 5)" by simp
  show ?thesis
    unfolding spec_repetition_def c
    by (simp add: r n repeat_spec[of "gen d xeger context val"] del: upt_Suc)
qed

lemma spec_draw_count_range:
  "lo \<le> spec_draw_count lo hi g" "lo \<le> hi \<Longrightarrow> spec_draw_count lo hi g \<le> hi"
proof -
  show "lo \<le> spec_draw_count lo hi g" by (simp add: spec_draw_count_def)
  assume le: "lo \<le> hi"
  have "shd g mod (hi - lo + 1) < hi - lo + 1" by (rule mod_less_divisor) simp
  with le show "spec_draw_count lo hi g \<le> hi"
    unfolding spec_draw_count_def by linarith
qed

lemma spec_draw_count_onto:
  "lo \<le> n \<Longrightarrow> n \<le> hi \<Longrightarrow> spec_draw_count lo hi (sconst (n - lo)) = n"
  by (simp add: spec_draw_count_def)

text \<open>
  C7. \<^verbatim>\<open>NoneOrMoreRule.gen\<close> is the repetition of the specification with the bounds 0 and
  5, \<^verbatim>\<open>OneOrMoreRule.gen\<close> the one with the bounds 1 and 5. The counts are what
  \<^verbatim>\<open>random.randint(0, START_LIMIT)\<close> and \<^verbatim>\<open>random.randint(1, PLUS_LIMIT)\<close> return; they
  lie in the range, the count of a \<open>OneOrMoreRule\<close> is never zero, and every count of
  the range is drawn by some random source.
\<close>

theorem repetition_counts:
  "gen (Suc d) xeger context (NoneOrMoreRule val) g
     = spec_repetition 0 5 (gen d xeger context val) g
   \<and> gen (Suc d) xeger context (OneOrMoreRule val) g
     = spec_repetition 1 5 (gen d xeger context val) g
   \<and> randint 0 START_LIMIT g = Inr (int (spec_draw_count 0 5 g), stl g)
   \<and> randint 1 PLUS_LIMIT g = Inr (int (spec_draw_count 1 5 g), stl g)
   \<and> spec_draw_count 0 5 g \<le> 5
   \<and> 1 \<le> spec_draw_count 1 5 g \<and> spec_draw_count 1 5 g \<le> 5
   \<and> (n \<le> 5 \<longrightarrow> spec_draw_count 0 5 (sconst n) = n)
   \<and> (1 \<le> n \<and> n \<le> 5 \<longrightarrow> spec_draw_count 1 5 (sconst (n - 1)) = n)"
proof -
  have "randint 0 START_LIMIT g = Inr (int (spec_draw_count 0 5 g), stl g)"
    by (simp add: randint_def START_LIMIT_def randbelow_def spec_draw_count_def)
  moreover have "randint 1 PLUS_LIMIT g = Inr (int (spec_draw_count 1 5 g), stl g)"
    by (simp add: randint_def PLUS_LIMIT_def randbelow_def spec_draw_count_def)
  moreover have "spec_draw_count 0 5 g \<le> 5" "spec_draw_count 1 5 g \<le> 5"
    by (rule spec_draw_count_range; simp)+
  moreover have "1 \<le> spec_draw_count 1 5 g"
    by (rule spec_draw_count_range)
  moreover have "n \<le> 5 \<longrightarrow> spec_draw_count 0 5 (sconst n) = n"
    using spec_draw_count_onto[of 0 n 5] by simp
  moreover have "1 \<le> n \<and> n \<le> 5 \<longrightarrow> spec_draw_count 1 5 (sconst (n - 1)) = n"
    using spec_draw_count_onto[of 1 n 5] by simp
  ultimately show ?thesis
    using gen_NoneOrMore_spec[of d xeger "context" val g]
      gen_OneOrMore_spec[of d xeger "context" val g]
    by blast
qed

text \<open>
  The literal \<open>ab\<close> under \<^verbatim>\<open>*\<close> with a raw draw of 3, and under \<^verbatim>\<open>+\<close> with a raw draw of 0:
  three copies and one copy. The largest counts are drawn by the raw draws 5 and 4.
\<close>

theorem repetition_counts_witness:
  "gen (Suc (Suc 0)) (\<lambda>pattern limit g. Inr ([], g)) [] (NoneOrMoreRule (LiteralRule (Some ''ab'')))
       (3 ## sconst 0)
     = Inr (Some ''ababab'', sconst 0)
   \<and> gen (Suc (Suc 0)) (\<lambda>pattern limit g. Inr ([], g)) [] (OneOrMoreRule (LiteralRule (Some ''ab'')))
       (sconst 0)
     = Inr (Some ''ab'', sconst 0)
   \<and> spec_draw_count 0 5 (sconst 5) = 5
   \<and> spec_draw_count 1 5 (sconst (5 - 1)) = 5"
proof -
  have three: "spec_draw_count 0 5 (3 ## sconst 0) = Suc (Suc (Suc 0))"
    by (simp add: spec_draw_count_def)
  have one: "spec_draw_count 1 5 (sconst 0) = Suc 0"
    by (simp add: spec_draw_count_def)
  have star: "spec_repetition 0 5
                (gen (Suc 0) (\<lambda>pattern limit g. Inr ([], g)) [] (LiteralRule (Some ''ab'')))
                (3 ## sconst 0)
              = Inr (Some ''ababab'', sconst 0)"
    unfolding spec_repetition_def three by simp
  have plus: "spec_repetition 1 5
                (gen (Suc 0) (\<lambda>pattern limit g. Inr ([], g)) [] (LiteralRule (Some ''ab'')))
                (sconst 0)
              = Inr (Some ''ab'', sconst 0)"
    unfolding spec_repetition_def one by simp
  note at3 = repetition_counts
         [of "Suc 0" "\<lambda>pattern limit g. Inr ([], g)" "[]" "LiteralRule (Some ''ab'')" "3 ## sconst 0" 5]
  note at0 = repetition_counts
         [of "Suc 0" "\<lambda>pattern limit g. Inr ([], g)" "[]" "LiteralRule (Some ''ab'')" "sconst 0" 5]
  have A: "gen (Suc (Suc 0)) (\<lambda>pattern limit g. Inr ([], g)) []
             (NoneOrMoreRule (LiteralRule (Some ''ab''))) (3 ## sconst 0)
           = Inr (Some ''ababab'', sconst 0)"
    using at3[THEN conjunct1] star by (rule trans)
  have B: "gen (Suc (Suc 0)) (\<lambda>pattern limit g. Inr ([], g)) []
             (OneOrMoreRule (LiteralRule (Some ''ab''))) (sconst 0)
           = Inr (Some ''ab'', sconst 0)"
    using at0[THEN conjunct2, THEN conjunct1] plus by (rule trans)
  have C: "spec_draw_count 0 5 (sconst 5) = 5"
    using at0 by blast
  have D: "spec_draw_count 1 5 (sconst (5 - 1)) = 5"
    using at0 by simp
  from A B C D show ?thesis by (intro conjI)
qed

end
